theory Spec2Isabelle
  imports Main "HOL-Library.Word"
begin

section \<open>The payment meterer of core/meterer/meterer.go\<close>

text \<open>
  Go's \<open>uint64\<close> and \<open>int64\<close> are both 64-bit words: arithmetic wraps around, the
  conversions \<open>uint64(x)\<close> and \<open>int64(x)\<close> keep the bit pattern, \<open>unat\<close> reads a word
  as unsigned and \<open>sint\<close> as two's complement. \<open>*big.Int\<close> is \<open>int\<close>.
\<close>

type_synonym uint64 = "64 word"
type_synonym int64 = "64 word"
type_synonym uint8 = "8 word"

subsection \<open>Errors\<close>

text \<open>
  \<open>Errorf msg\<close> is \<open>fmt.Errorf(msg)\<close>, \<open>ErrorfW msg e\<close> is \<open>fmt.Errorf(msg + ": %w", e)\<close>
  and \<open>ErrorfD msg q\<close> is \<open>fmt.Errorf(msg + ": %d", q)\<close>.
\<close>

datatype error =
    Errorf string
  | ErrorfW string error
  | ErrorfD string uint8

text \<open>
  A function that returns \<open>error\<close> or \<open>(T, error)\<close> returns \<open>Inr\<close> of its value when the
  error is \<open>nil\<close> and \<open>Inl\<close> of the error otherwise. The one run-time panic of the
  meterer is the integer division by zero in the rounding of a symbol count: a function
  that returns a plain value and can panic returns an \<open>option\<close> (\<open>None\<close> is the panic),
  and a function that returns an error and can panic returns a \<open>result\<close>. The panic
  unwinds out of every caller; no caller wraps it.
\<close>

datatype 'a result = Ok 'a | Err error | PanicDivideByZero

subsection \<open>Data model\<close>

record PaymentMetadata =
  AccountID :: string
  Timestamp :: int64
  CumulativePayment :: int

record ReservedPayment =
  SymbolsPerSecond :: uint64
  StartTimestamp :: uint64
  EndTimestamp :: uint64
  QuorumNumbers :: "uint8 list"

record OnDemandPayment =
  DepositCumulativePayment :: int

text \<open>
  The \<open>OnchainPayment\<close> interface is declared outside the sources at hand; the meterer
  only calls its getters, so the cached chain state is the record of what they return.
  The numeric getters return \<open>uint64\<close> (the meterer passes \<open>GetReservationWindow()\<close>
  where a \<open>uint64\<close> is expected). The account lookups take the account string of the
  header (the conversion \<open>gethcommon.HexToAddress\<close> is part of the lookup).
\<close>

record OnchainPayment =
  GetReservedPaymentByAccount :: "string \<Rightarrow> error + ReservedPayment"
  GetOnDemandPaymentByAccount :: "string \<Rightarrow> error + OnDemandPayment"
  GetOnDemandQuorumNumbers :: "error + uint8 list"
  GetGlobalSymbolsPerSecond :: uint64
  GetGlobalRatePeriodInterval :: uint64
  GetMinNumSymbols :: uint64
  GetPricePerSymbol :: uint64
  GetReservationWindow :: uint64

text \<open>
  \<open>DurationSeconds ns\<close> stands for \<open>int64((time.Duration(ns) * time.Nanosecond).Seconds())\<close>.
  The functions of the meterer take the conversion as a parameter; the standard
  library's own conversion, which works in \<open>float64\<close>, is \<open>DurationSecondsFloat64\<close> below.
\<close>

record Meterer =
  ChainPaymentState :: OnchainPayment
  DurationSeconds :: "int64 \<Rightarrow> int64"

subsection \<open>Pricing\<close>

text \<open>
  Modelled from the spec: \<open>core.RoundUpDivide\<close> is not among the sources. The spec
  rounds a symbol count up to a multiple of the minimum in 64-bit arithmetic that can
  overflow; the helper is the rounded-up quotient in the operands' own arithmetic,
  \<open>(a + b - 1) / b\<close>, and a zero divisor panics (\<open>None\<close>).
\<close>

definition RoundUpDivide :: "uint64 \<Rightarrow> uint64 \<Rightarrow> uint64 option" where
  "RoundUpDivide a b = (if b = 0 then None else Some ((a + b - 1) div b))"

definition MaxUint64 :: uint64 where
  "MaxUint64 = 18446744073709551615"

definition SymbolsCharged :: "Meterer \<Rightarrow> uint64 \<Rightarrow> uint64 option" where
  "SymbolsCharged m numSymbols =
     (let minSymbols = GetMinNumSymbols (ChainPaymentState m) in
      if numSymbols \<le> minSymbols then Some minSymbols
      else case RoundUpDivide numSymbols minSymbols of
             None \<Rightarrow> None
           | Some q \<Rightarrow>
               (let roundedUp = q * minSymbols in
                if roundedUp < numSymbols then Some MaxUint64 else Some roundedUp))"

text \<open>
  The price per symbol goes through \<open>int64(...)\<close> into a \<open>big.Int\<close>: it is read as a
  signed value.
\<close>

definition PaymentCharged :: "Meterer \<Rightarrow> uint64 \<Rightarrow> int option" where
  "PaymentCharged m numSymbols =
     (case SymbolsCharged m numSymbols of
        None \<Rightarrow> None
      | Some symbolsCharged \<Rightarrow>
          (let pricePerSymbol = sint (GetPricePerSymbol (ChainPaymentState m)) in
           Some (uint symbolsCharged * pricePerSymbol)))"

subsection \<open>Period arithmetic\<close>

definition GetReservationPeriod :: "int64 \<Rightarrow> uint64 \<Rightarrow> uint64" where
  "GetReservationPeriod timestamp binInterval =
     (if binInterval = 0 then 0 else timestamp div binInterval)"

definition GetReservationPeriodByNanosecond :: "Meterer \<Rightarrow> int64 \<Rightarrow> uint64 \<Rightarrow> uint64" where
  "GetReservationPeriodByNanosecond m nanosecondTimestamp binInterval =
     (if sint nanosecondTimestamp < 0 then 0
      else GetReservationPeriod (DurationSeconds m nanosecondTimestamp) binInterval)"

subsection \<open>The standard library's conversion of nanoseconds to seconds\<close>

text \<open>
  Go's package \<open>time\<close> has
  \<^verbatim>\<open>func (d Duration) Seconds() float64 {
      sec := d / Second
      nsec := d % Second
      return float64(sec) + float64(nsec)/1e9 }\<close>
  with \<open>Second = 1e9\<close> and \<open>Nanosecond = 1\<close>. A \<open>float64\<close> is a significand of 53 bits
  times a power of two, here the pair \<open>(m, e)\<close> for \<open>m * 2^e\<close>. The conversions
  \<open>float64(sec)\<close> and \<open>float64(nsec)\<close> are exact (both are below \<open>2^53\<close>); the quotient
  and the sum are each rounded to the nearest \<open>float64\<close>, ties to the even significand.
  \<open>float64_round p q\<close> is that rounding of the fraction \<open>p / q\<close>; all values that occur
  are zero or in the normal range. The integer division and remainder of Go truncate
  towards zero and the rounding is symmetric, so a negative duration is converted
  through its magnitude; \<open>int64(...)\<close> truncates towards zero.
\<close>

fun bit_length :: "nat \<Rightarrow> nat" where
  "bit_length n = (if n = 0 then 0 else Suc (bit_length (n div 2)))"

declare bit_length.simps [simp del]

definition floor_log2 :: "nat \<Rightarrow> nat \<Rightarrow> int" where
  "floor_log2 p q =
     (let d = int (bit_length p) - int (bit_length q) in
      if q * 2 ^ nat d \<le> p * 2 ^ nat (- d) then d else d - 1)"

definition round_half_even :: "nat \<Rightarrow> nat \<Rightarrow> nat" where
  "round_half_even p q =
     (let f = p div q; r = p mod q in
      if 2 * r < q then f
      else if q < 2 * r then f + 1
      else if even f then f else f + 1)"

definition float64_round :: "nat \<Rightarrow> nat \<Rightarrow> nat \<times> int" where
  "float64_round p q =
     (if p = 0 then (0, 0)
      else let e = floor_log2 p q;
               k = 52 - e
           in (round_half_even (p * 2 ^ nat k) (q * 2 ^ nat (- k)), - k))"

definition float64_trunc :: "nat \<times> int \<Rightarrow> nat" where
  "float64_trunc x = (case x of (m, e) \<Rightarrow> m * 2 ^ nat e div 2 ^ nat (- e))"

definition Seconds :: "nat \<Rightarrow> nat \<times> int" where
  "Seconds d =
     (let sec = d div 1000000000;
          nsec = d mod 1000000000;
          quot = float64_round nsec 1000000000
      in case quot of (m, e) \<Rightarrow>
           float64_round (sec * 2 ^ nat (- e) + m * 2 ^ nat e) (2 ^ nat (- e)))"

definition DurationSecondsFloat64 :: "int64 \<Rightarrow> int64" where
  "DurationSecondsFloat64 d =
     (let t = int (float64_trunc (Seconds (nat \<bar>sint d\<bar>)))
      in word_of_int (if sint d < 0 then - t else t))"

subsection \<open>The off-chain store\<close>

text \<open>
  Modelled from the spec: the \<open>OffchainStore\<close> (section 6, LedgerStore) is not among the
  sources. Reservation bins are keyed by account and period and global bins by period,
  both unsigned 64-bit counters that start at zero; the on-demand ledger holds the
  entries (account, cumulative payment, number of symbols). \<open>Outage\<close> says which calls
  fail at the transport level and with which error; a failed call changes no data.
  \<open>Writes\<close> is the sequence of write requests the store has received, the failed ones
  included.
\<close>

datatype StoreCall =
    UpdateReservationBinCall string uint64 uint64
  | UpdateGlobalBinCall uint64 uint64
  | AddOnDemandPaymentCall string int uint64
  | RemoveOnDemandPaymentCall string int
  | GetRelevantOnDemandRecordsCall string int

record OffchainStore =
  ReservationBins :: "string \<times> uint64 \<Rightarrow> uint64"
  GlobalBins :: "uint64 \<Rightarrow> uint64"
  OnDemandLedger :: "(string \<times> int \<times> uint64) list"
  Outage :: "StoreCall \<Rightarrow> error option"
  Writes :: "StoreCall list"

text \<open>The writes to the reservation bins, as opposed to the ledger and the global bins.\<close>

fun is_reservation_write :: "StoreCall \<Rightarrow> bool" where
  "is_reservation_write (UpdateReservationBinCall a p d) = True"
| "is_reservation_write c = False"

text \<open>Modelled from the spec: \<open>updateReservationBin\<close>, an atomic add-and-fetch.\<close>

definition UpdateReservationBin ::
  "OffchainStore \<Rightarrow> string \<Rightarrow> uint64 \<Rightarrow> uint64 \<Rightarrow> (error + uint64) \<times> OffchainStore" where
  "UpdateReservationBin st accountID period delta =
     (let call = UpdateReservationBinCall accountID period delta;
          st' = st\<lparr>Writes := Writes st @ [call]\<rparr> in
      case Outage st call of
        Some err \<Rightarrow> (Inl err, st')
      | None \<Rightarrow>
          (let binUsage = ReservationBins st (accountID, period) + delta in
           (Inr binUsage,
            st'\<lparr>ReservationBins := (ReservationBins st)((accountID, period) := binUsage)\<rparr>)))"

text \<open>Modelled from the spec: \<open>updateGlobalBin\<close>, an atomic add-and-fetch.\<close>

definition UpdateGlobalBin ::
  "OffchainStore \<Rightarrow> uint64 \<Rightarrow> uint64 \<Rightarrow> (error + uint64) \<times> OffchainStore" where
  "UpdateGlobalBin st period delta =
     (let call = UpdateGlobalBinCall period delta;
          st' = st\<lparr>Writes := Writes st @ [call]\<rparr> in
      case Outage st call of
        Some err \<Rightarrow> (Inl err, st')
      | None \<Rightarrow>
          (let binUsage = GlobalBins st period + delta in
           (Inr binUsage, st'\<lparr>GlobalBins := (GlobalBins st)(period := binUsage)\<rparr>)))"

definition ledger_has :: "(string \<times> int \<times> uint64) list \<Rightarrow> string \<Rightarrow> int \<Rightarrow> bool" where
  "ledger_has entries accountID payment =
     list_ex (\<lambda>(a, p, n). a = accountID \<and> p = payment) entries"

text \<open>
  Modelled from the spec: \<open>addOnDemandPayment\<close> inserts a ledger entry and fails cleanly
  on a duplicate (account, cumulative payment).
\<close>

definition AddOnDemandPayment ::
  "OffchainStore \<Rightarrow> PaymentMetadata \<Rightarrow> uint64 \<Rightarrow> (error + unit) \<times> OffchainStore" where
  "AddOnDemandPayment st paymentMetadata symbolsCharged =
     (let call = AddOnDemandPaymentCall (AccountID paymentMetadata)
                   (CumulativePayment paymentMetadata) symbolsCharged;
          st' = st\<lparr>Writes := Writes st @ [call]\<rparr> in
      case Outage st call of
        Some err \<Rightarrow> (Inl err, st')
      | None \<Rightarrow>
          if ledger_has (OnDemandLedger st) (AccountID paymentMetadata)
               (CumulativePayment paymentMetadata)
          then (Inl (Errorf ''duplicate on-demand payment''), st')
          else (Inr (),
                st'\<lparr>OnDemandLedger := OnDemandLedger st @
                   [(AccountID paymentMetadata, CumulativePayment paymentMetadata,
                     symbolsCharged)]\<rparr>))"

text \<open>Modelled from the spec: \<open>removeOnDemandPayment\<close>, an idempotent delete.\<close>

definition RemoveOnDemandPayment ::
  "OffchainStore \<Rightarrow> string \<Rightarrow> int \<Rightarrow> (error + unit) \<times> OffchainStore" where
  "RemoveOnDemandPayment st accountID payment =
     (let call = RemoveOnDemandPaymentCall accountID payment;
          st' = st\<lparr>Writes := Writes st @ [call]\<rparr> in
      case Outage st call of
        Some err \<Rightarrow> (Inl err, st')
      | None \<Rightarrow>
          (Inr (),
           st'\<lparr>OnDemandLedger :=
                 filter (\<lambda>(a, p, n). \<not> (a = accountID \<and> p = payment)) (OnDemandLedger st)\<rparr>))"

primrec largest_below :: "string \<Rightarrow> int \<Rightarrow> (string \<times> int \<times> uint64) list \<Rightarrow> int option" where
  "largest_below accountID payment [] = None"
| "largest_below accountID payment (e # es) =
     (let rest = largest_below accountID payment es in
      if fst e = accountID \<and> fst (snd e) < payment
      then (case rest of
              None \<Rightarrow> Some (fst (snd e))
            | Some b \<Rightarrow> Some (max b (fst (snd e))))
      else rest)"

primrec smallest_above ::
  "string \<Rightarrow> int \<Rightarrow> (string \<times> int \<times> uint64) list \<Rightarrow> (int \<times> uint64) option" where
  "smallest_above accountID payment [] = None"
| "smallest_above accountID payment (e # es) =
     (let rest = smallest_above accountID payment es in
      if fst e = accountID \<and> payment < fst (snd e)
      then (case rest of
              None \<Rightarrow> Some (snd e)
            | Some b \<Rightarrow> (if fst (snd e) < fst b then Some (snd e) else Some b))
      else rest)"

text \<open>
  Modelled from the spec: \<open>getRelevantOnDemandRecords\<close> returns the strictly smaller and
  the strictly greater neighbour of a cumulative payment within the account, and the
  number of symbols of the greater one; zero when absent. It is a read: the store is
  left as it is.
\<close>

definition GetRelevantOnDemandRecords ::
  "OffchainStore \<Rightarrow> string \<Rightarrow> int \<Rightarrow> error + (int \<times> int \<times> uint64)" where
  "GetRelevantOnDemandRecords st accountID payment =
     (case Outage st (GetRelevantOnDemandRecordsCall accountID payment) of
        Some err \<Rightarrow> Inl err
      | None \<Rightarrow>
          (let prevPmt = (case largest_below accountID payment (OnDemandLedger st) of
                            None \<Rightarrow> 0 | Some p \<Rightarrow> p);
               nextRec = (case smallest_above accountID payment (OnDemandLedger st) of
                            None \<Rightarrow> (0, 0) | Some r \<Rightarrow> r)
           in Inr (prevPmt, fst nextRec, snd nextRec)))"

text \<open>
  Modelled from the spec: \<open>ReservedPayment.IsActiveByNanosecond\<close> is not among the
  sources; it holds iff \<open>start \<le> ts_ns/1e9 < end\<close>.
\<close>

definition IsActiveByNanosecond :: "Meterer \<Rightarrow> ReservedPayment \<Rightarrow> int64 \<Rightarrow> bool" where
  "IsActiveByNanosecond m reservation currentTimestamp =
     (let timestamp = DurationSeconds m currentTimestamp in
      StartTimestamp reservation \<le> timestamp \<and> timestamp < EndTimestamp reservation)"

subsection \<open>The reservation path\<close>

primrec ValidateQuorum_loop :: "uint8 list \<Rightarrow> uint8 list \<Rightarrow> error + unit" where
  "ValidateQuorum_loop [] allowedQuorums = Inr ()"
| "ValidateQuorum_loop (q # qs) allowedQuorums =
     (if q \<notin> set allowedQuorums
      then Inl (ErrorfD ''quorum number mismatch'' q)
      else ValidateQuorum_loop qs allowedQuorums)"

definition ValidateQuorum :: "uint8 list \<Rightarrow> uint8 list \<Rightarrow> error + unit" where
  "ValidateQuorum headerQuorums allowedQuorums =
     (if length headerQuorums = 0 then Inl (Errorf ''no quorum params in blob header'')
      else ValidateQuorum_loop headerQuorums allowedQuorums)"

text \<open>\<open>receivedAt\<close> is given by its Unix seconds, \<open>receivedAt.Unix()\<close>.\<close>

definition ValidateReservationPeriod ::
  "Meterer \<Rightarrow> ReservedPayment \<Rightarrow> uint64 \<Rightarrow> int64 \<Rightarrow> bool" where
  "ValidateReservationPeriod m reservation requestReservationPeriod receivedAt =
     (let reservationWindow = GetReservationWindow (ChainPaymentState m);
          currentReservationPeriod = GetReservationPeriod receivedAt reservationWindow;
          isCurrentOrPreviousPeriod =
            (requestReservationPeriod = currentReservationPeriod
             \<or> requestReservationPeriod = currentReservationPeriod - 1);
          startPeriod = GetReservationPeriod (StartTimestamp reservation) reservationWindow;
          endPeriod = GetReservationPeriod (EndTimestamp reservation) reservationWindow;
          isWithinReservationWindow =
            (startPeriod \<le> requestReservationPeriod \<and> requestReservationPeriod < endPeriod)
      in if \<not> isCurrentOrPreviousPeriod \<or> \<not> isWithinReservationWindow then False else True)"

definition GetReservationBinLimit :: "Meterer \<Rightarrow> ReservedPayment \<Rightarrow> uint64" where
  "GetReservationBinLimit m reservation =
     SymbolsPerSecond reservation * GetReservationWindow (ChainPaymentState m)"

definition IncrementBinUsage ::
  "Meterer \<Rightarrow> OffchainStore \<Rightarrow> PaymentMetadata \<Rightarrow> ReservedPayment \<Rightarrow> uint64 \<Rightarrow> uint64
     \<Rightarrow> (error + unit) \<times> OffchainStore" where
  "IncrementBinUsage m st header reservation symbolsCharged requestReservationPeriod =
     (case UpdateReservationBin st (AccountID header) requestReservationPeriod symbolsCharged of
        (Inl err, st1) \<Rightarrow> (Inl (ErrorfW ''failed to increment bin usage'' err), st1)
      | (Inr newUsage, st1) \<Rightarrow>
          (let usageLimit = GetReservationBinLimit m reservation in
           if newUsage \<le> usageLimit then (Inr (), st1)
           else if newUsage - symbolsCharged \<ge> usageLimit
           then (Inl (Errorf ''bin has already been filled''), st1)
           else if newUsage \<le> 2 * usageLimit
                   \<and> requestReservationPeriod + 2
                       \<le> GetReservationPeriod (EndTimestamp reservation)
                            (GetReservationWindow (ChainPaymentState m))
           then (case UpdateReservationBin st1 (AccountID header)
                        (requestReservationPeriod + 2) (newUsage - usageLimit) of
                   (Inl err, st2) \<Rightarrow> (Inl err, st2)
                 | (Inr _, st2) \<Rightarrow> (Inr (), st2))
           else (Inl (Errorf ''overflow usage exceeds bin limit''), st1)))"

definition ServeReservationRequest ::
  "Meterer \<Rightarrow> OffchainStore \<Rightarrow> PaymentMetadata \<Rightarrow> ReservedPayment \<Rightarrow> uint64 \<Rightarrow> uint8 list
     \<Rightarrow> int64 \<Rightarrow> (error + unit) \<times> OffchainStore" where
  "ServeReservationRequest m st header reservation symbolsCharged quorumNumbers receivedAt =
     (if \<not> IsActiveByNanosecond m reservation (Timestamp header)
      then (Inl (Errorf ''reservation not active''), st)
      else case ValidateQuorum quorumNumbers (QuorumNumbers reservation) of
        Inl err \<Rightarrow> (Inl (ErrorfW ''invalid quorum for reservation'' err), st)
      | Inr _ \<Rightarrow>
          (let reservationWindow = GetReservationWindow (ChainPaymentState m);
               requestReservationPeriod =
                 GetReservationPeriodByNanosecond m (Timestamp header) reservationWindow
           in if \<not> ValidateReservationPeriod m reservation requestReservationPeriod receivedAt
              then (Inl (Errorf ''invalid reservation period for reservation''), st)
              else case IncrementBinUsage m st header reservation symbolsCharged
                          requestReservationPeriod of
                     (Inl err, st') \<Rightarrow> (Inl (ErrorfW ''bin overflows'' err), st')
                   | (Inr _, st') \<Rightarrow> (Inr (), st')))"

subsection \<open>The on-demand path\<close>

definition ValidatePayment ::
  "Meterer \<Rightarrow> OffchainStore \<Rightarrow> PaymentMetadata \<Rightarrow> OnDemandPayment \<Rightarrow> uint64 \<Rightarrow> unit result" where
  "ValidatePayment m st header onDemandPayment symbolsCharged =
     (if CumulativePayment header > DepositCumulativePayment onDemandPayment
      then Err (Errorf ''request claims a cumulative payment greater than the on-chain deposit'')
      else case GetRelevantOnDemandRecords st (AccountID header) (CumulativePayment header) of
        Inl err \<Rightarrow> Err (ErrorfW ''failed to get relevant on-demand records'' err)
      | Inr (prevPmt, nextPmt, nextPmtNumSymbols) \<Rightarrow>
          (case PaymentCharged m symbolsCharged of
             None \<Rightarrow> PanicDivideByZero
           | Some charged \<Rightarrow>
               if prevPmt + charged > CumulativePayment header
               then Err (Errorf ''insufficient cumulative payment increment'')
               else if nextPmt = 0 then Ok ()
               else (case PaymentCharged m nextPmtNumSymbols of
                       None \<Rightarrow> PanicDivideByZero
                     | Some nextCharged \<Rightarrow>
                         if CumulativePayment header + nextCharged > nextPmt
                         then Err (Errorf ''breaking cumulative payment invariants'')
                         else Ok ())))"

definition IncrementGlobalBinUsage ::
  "Meterer \<Rightarrow> OffchainStore \<Rightarrow> uint64 \<Rightarrow> int64 \<Rightarrow> (error + unit) \<times> OffchainStore" where
  "IncrementGlobalBinUsage m st symbolsCharged receivedAt =
     (let globalPeriod =
            GetReservationPeriod receivedAt (GetGlobalRatePeriodInterval (ChainPaymentState m))
      in case UpdateGlobalBin st globalPeriod symbolsCharged of
           (Inl err, st1) \<Rightarrow> (Inl (ErrorfW ''failed to increment global bin usage'' err), st1)
         | (Inr newUsage, st1) \<Rightarrow>
             if newUsage > GetGlobalSymbolsPerSecond (ChainPaymentState m)
                             * GetGlobalRatePeriodInterval (ChainPaymentState m)
             then (Inl (Errorf ''global bin usage overflows''), st1)
             else (Inr (), st1))"

definition ServeOnDemandRequest ::
  "Meterer \<Rightarrow> OffchainStore \<Rightarrow> PaymentMetadata \<Rightarrow> OnDemandPayment \<Rightarrow> uint64 \<Rightarrow> uint8 list
     \<Rightarrow> int64 \<Rightarrow> unit result \<times> OffchainStore" where
  "ServeOnDemandRequest m st header onDemandPayment symbolsCharged headerQuorums receivedAt =
     (case GetOnDemandQuorumNumbers (ChainPaymentState m) of
        Inl err \<Rightarrow> (Err (ErrorfW ''failed to get on-demand quorum numbers'' err), st)
      | Inr quorumNumbers \<Rightarrow>
      (case ValidateQuorum headerQuorums quorumNumbers of
        Inl err \<Rightarrow> (Err (ErrorfW ''invalid quorum for On-Demand Request'' err), st)
      | Inr _ \<Rightarrow>
      (case ValidatePayment m st header onDemandPayment symbolsCharged of
        PanicDivideByZero \<Rightarrow> (PanicDivideByZero, st)
      | Err err \<Rightarrow> (Err (ErrorfW ''invalid on-demand payment'' err), st)
      | Ok _ \<Rightarrow>
      (case AddOnDemandPayment st header symbolsCharged of
        (Inl err, st1) \<Rightarrow> (Err (ErrorfW ''failed to update cumulative payment'' err), st1)
      | (Inr _, st1) \<Rightarrow>
      (case IncrementGlobalBinUsage m st1 symbolsCharged receivedAt of
        (Inl err, st2) \<Rightarrow>
          (case RemoveOnDemandPayment st2 (AccountID header) (CumulativePayment header) of
             (Inl dbErr, st3) \<Rightarrow> (Err dbErr, st3)
           | (Inr _, st3) \<Rightarrow> (Err (ErrorfW ''failed global rate limiting'' err), st3))
      | (Inr _, st2) \<Rightarrow> (Ok (), st2))))))"

subsection \<open>The entry point\<close>

definition MeterRequest ::
  "Meterer \<Rightarrow> OffchainStore \<Rightarrow> PaymentMetadata \<Rightarrow> uint64 \<Rightarrow> uint8 list \<Rightarrow> int64
     \<Rightarrow> uint64 result \<times> OffchainStore" where
  "MeterRequest m st header numSymbols quorumNumbers receivedAt =
     (case SymbolsCharged m numSymbols of
        None \<Rightarrow> (PanicDivideByZero, st)
      | Some symbolsCharged \<Rightarrow>
          if sgn (CumulativePayment header) = 0
          then (case GetReservedPaymentByAccount (ChainPaymentState m) (AccountID header) of
                  Inl err \<Rightarrow> (Err (ErrorfW ''failed to get active reservation by account'' err), st)
                | Inr reservation \<Rightarrow>
                    (case ServeReservationRequest m st header reservation symbolsCharged
                            quorumNumbers receivedAt of
                       (Inl err, st') \<Rightarrow> (Err (ErrorfW ''invalid reservation'' err), st')
                     | (Inr _, st') \<Rightarrow> (Ok symbolsCharged, st')))
          else (case GetOnDemandPaymentByAccount (ChainPaymentState m) (AccountID header) of
                  Inl err \<Rightarrow>
                    (Err (ErrorfW ''failed to get on-demand payment by account'' err), st)
                | Inr onDemandPayment \<Rightarrow>
                    (case ServeOnDemandRequest m st header onDemandPayment symbolsCharged
                            quorumNumbers receivedAt of
                       (PanicDivideByZero, st') \<Rightarrow> (PanicDivideByZero, st')
                     | (Err err, st') \<Rightarrow> (Err (ErrorfW ''invalid on-demand request'' err), st')
                     | (Ok _, st') \<Rightarrow> (Ok symbolsCharged, st'))))"

section \<open>An example configuration\<close>

text \<open>
  The parameters of the end-to-end scenarios: \<open>minNumSymbols = 3\<close>, \<open>pricePerSymbol = 10\<close>,
  \<open>reservationWindow = 60\<close>, \<open>globalRatePeriodInterval = 1\<close>,
  \<open>globalSymbolsPerSecond = 100\<close>; a reservation over \<open>[0, 600)\<close> at 5 symbols per
  second on quorums 0 and 1; a deposit of 10000.
\<close>

definition example_reservation :: ReservedPayment where
  "example_reservation =
     \<lparr>SymbolsPerSecond = 5, StartTimestamp = 0, EndTimestamp = 600, QuorumNumbers = [0, 1]\<rparr>"

definition example_chain :: OnchainPayment where
  "example_chain =
     \<lparr>GetReservedPaymentByAccount = (\<lambda>a. Inr example_reservation),
      GetOnDemandPaymentByAccount = (\<lambda>a. Inr \<lparr>DepositCumulativePayment = 10000\<rparr>),
      GetOnDemandQuorumNumbers = Inr [0, 1],
      GetGlobalSymbolsPerSecond = 100,
      GetGlobalRatePeriodInterval = 1,
      GetMinNumSymbols = 3,
      GetPricePerSymbol = 10,
      GetReservationWindow = 60\<rparr>"

definition example_meterer :: Meterer where
  "example_meterer =
     \<lparr>ChainPaymentState = example_chain, DurationSeconds = (\<lambda>ns. ns div 1000000000)\<rparr>"

definition example_store :: OffchainStore where
  "example_store =
     \<lparr>ReservationBins = (\<lambda>k. 0), GlobalBins = (\<lambda>p. 0),
      OnDemandLedger = [(''0xA'', 500, 6)], Outage = (\<lambda>c. None), Writes = []\<rparr>"

definition example_header :: "int \<Rightarrow> PaymentMetadata" where
  "example_header payment =
     \<lparr>AccountID = ''0xA'', Timestamp = 30000000000, CumulativePayment = payment\<rparr>"

definition example_store_loaded :: OffchainStore where
  "example_store_loaded =
     example_store\<lparr>ReservationBins := (\<lambda>k. if k = (''0xA'', 0) then 295 else 0)\<rparr>"

definition example_store_carry_outage :: OffchainStore where
  "example_store_carry_outage =
     example_store_loaded\<lparr>Outage := (\<lambda>c. if c = UpdateReservationBinCall ''0xA'' 2 16
                                             then Some (Errorf ''store unavailable'') else None)\<rparr>"

definition example_deposit :: OnDemandPayment where
  "example_deposit = \<lparr>DepositCumulativePayment = 10000\<rparr>"

section \<open>Properties\<close>

subsection \<open>Word arithmetic\<close>

lemma sint64_alt: "sint (t::64 word) = (uint t + 2 ^ 63) mod 2 ^ 64 - 2 ^ 63"
  by (simp add: sint_uint signed_take_bit_eq_take_bit_shift take_bit_eq_mod)

lemma sint64_cases: "sint (t::64 word) = (if uint t < 2 ^ 63 then uint t else uint t - 2 ^ 64)"
proof -
  have b: "0 \<le> uint t" "uint t < 2 ^ 64" using uint_lt2p [of t] by simp_all
  show ?thesis
  proof (cases "uint t < 2 ^ 63")
    case True
    with b have "(uint t + 2 ^ 63) mod 2 ^ 64 = uint t + 2 ^ 63"
      by (intro mod_pos_pos_trivial) simp_all
    with True show ?thesis by (simp add: sint64_alt)
  next
    case False
    have "uint t + 2 ^ 63 = uint t - 2 ^ 63 + 2 ^ 64"
      by simp
    then have "(uint t + 2 ^ 63) mod 2 ^ 64 = (uint t - 2 ^ 63 + 2 ^ 64) mod 2 ^ 64"
      by (rule arg_cong)
    also have "\<dots> = (uint t - 2 ^ 63) mod 2 ^ 64"
      by (simp only: mod_add_self2)
    also from b False have "\<dots> = uint t - 2 ^ 63"
      by (intro mod_pos_pos_trivial) simp_all
    finally show ?thesis using False by (simp add: sint64_alt)
  qed
qed

lemma unat64_bound: "unat (a::64 word) < 18446744073709551616"
  using unsigned_less [of a, where 'a = nat] by simp

lemma unat_roundup_sum:
  fixes a b :: "64 word"
  assumes "b \<noteq> 0" "unat a + unat b \<le> 2 ^ 64"
  shows "unat (a + b - 1) = unat a + unat b - 1"
proof -
  from assms(1) have b: "0 < unat b" by (simp add: unat_gt_0)
  have b1: "unat (b - 1) = unat b - 1" using assms(1) by (rule unat_minus_one)
  have "unat a + unat (b - 1) < 2 ^ LENGTH(64)" using assms(2) b b1 by simp
  then have "unat (a + (b - 1)) = unat a + unat (b - 1)" by (simp only: unat_add_lem)
  then show ?thesis using b b1 by (simp add: add_diff_eq)
qed

lemma roundup_times:
  fixes a b :: "64 word"
  assumes "b \<noteq> 0" "unat a + unat b \<le> 2 ^ 64"
  shows "unat ((a + b - 1) div b * b) = (unat a + unat b - 1) div unat b * unat b"
proof -
  from assms(1) have b: "0 < unat b" by (simp add: unat_gt_0)
  have q: "unat ((a + b - 1) div b) = (unat a + unat b - 1) div unat b"
    by (simp add: unat_div unat_roundup_sum [OF assms])
  have "(unat a + unat b - 1) div unat b * unat b \<le> unat a + unat b - 1"
    by simp
  also have "\<dots> < 2 ^ LENGTH(64)" using assms(2) b by simp
  finally have "unat ((a + b - 1) div b) * unat b < 2 ^ LENGTH(64)" by (simp only: q)
  then have "unat ((a + b - 1) div b * b) = unat ((a + b - 1) div b) * unat b"
    by (simp only: unat_mult_lem)
  then show ?thesis by (simp only: q)
qed

lemma roundup_wraps:
  fixes a b :: "64 word"
  assumes "b \<noteq> 0" "2 ^ 64 < unat a + unat b"
  shows "(a + b - 1) div b = 0"
proof -
  from assms(1) have b: "0 < unat b" by (simp add: unat_gt_0)
  have b1: "unat (b - 1) = unat b - 1" using assms(1) by (rule unat_minus_one)
  have "unat (a + (b - 1)) = (unat a + unat (b - 1)) mod 2 ^ 64"
    by (simp add: unat_word_ariths)
  also have "\<dots> = (unat a + unat b - 1 - 2 ^ 64 + 2 ^ 64) mod 2 ^ 64"
    using assms(2) b b1 by simp
  also have "\<dots> = (unat a + unat b - 1 - 2 ^ 64) mod 2 ^ 64"
    by (simp only: mod_add_self2)
  also have "\<dots> = unat a + unat b - 1 - 2 ^ 64"
    using unat64_bound [of a] unat64_bound [of b] by (intro mod_less) simp
  finally have "unat (a + b - 1) < unat b"
    using unat64_bound [of a] assms(2) by (simp add: add_diff_eq)
  then have "unat ((a + b - 1) div b) = 0" by (simp add: unat_div)
  then show ?thesis by (simp only: unat_eq_zero)
qed

lemma ceil_multiple_ge: "0 < (b::nat) \<Longrightarrow> a \<le> (a + b - 1) div b * b"
proof -
  assume b: "0 < b"
  have "a + b - 1 = (a + b - 1) div b * b + (a + b - 1) mod b" by simp
  moreover have "(a + b - 1) mod b < b" using b by simp
  ultimately show ?thesis by linarith
qed

lemma ceil_multiple_least:
  assumes "0 < (b::nat)" "b dvd k" "a \<le> k"
  shows "(a + b - 1) div b * b \<le> k"
proof -
  from assms(2) obtain j where k: "k = j * b" by (auto simp: dvd_def mult.commute)
  have "(a + b - 1) div b \<le> (j * b + b - 1) div b"
    using assms(3) k by (intro div_le_mono) simp
  also have "(j * b + b - 1) div b = j"
  proof -
    have "j * b + b - 1 = (b - 1) + j * b" using assms(1) by simp
    then have "(j * b + b - 1) div b = ((b - 1) + j * b) div b" by (rule arg_cong)
    also have "\<dots> = j + (b - 1) div b" using assms(1) by (intro div_mult_self1) simp
    also have "\<dots> = j" using assms(1) by simp
    finally show ?thesis .
  qed
  finally show ?thesis using k by simp
qed

lemma SymbolsCharged_cases:
  assumes mn: "GetMinNumSymbols (ChainPaymentState m) = mn" and pos: "mn \<noteq> 0"
  shows "SymbolsCharged m n =
           (if n \<le> mn then Some mn
            else if unat n + unat mn \<le> 2 ^ 64
            then Some (word_of_nat ((unat n + unat mn - 1) div unat mn * unat mn))
            else Some MaxUint64)"
proof (cases "n \<le> mn")
  case True
  then show ?thesis by (simp add: SymbolsCharged_def mn)
next
  case False
  then have nz: "n \<noteq> 0" by auto
  show ?thesis
  proof (cases "unat n + unat mn \<le> 2 ^ 64")
    case fits: True
    have u: "unat ((n + mn - 1) div mn * mn) = (unat n + unat mn - 1) div unat mn * unat mn"
      using pos fits by (rule roundup_times)
    have "unat n \<le> unat ((n + mn - 1) div mn * mn)"
      using ceil_multiple_ge [of "unat mn" "unat n"] pos by (simp add: unat_gt_0 u)
    then have ge: "\<not> (n + mn - 1) div mn * mn < n"
      by (simp add: word_less_nat_alt)
    have "(n + mn - 1) div mn * mn = word_of_nat ((unat n + unat mn - 1) div unat mn * unat mn)"
      by (simp only: u [symmetric]) simp
    with False fits ge pos show ?thesis
      by (simp add: SymbolsCharged_def mn RoundUpDivide_def Let_def)
  next
    case wraps: False
    then have "(n + mn - 1) div mn = 0" using pos by (intro roundup_wraps) simp_all
    with False wraps nz pos show ?thesis
      by (simp add: SymbolsCharged_def mn RoundUpDivide_def Let_def word_gt_0)
  qed
qed

subsection \<open>Pricing\<close>

text \<open>
  C5. With a minimum \<open>mn > 0\<close>: \<open>SymbolsCharged n\<close> is \<open>mn\<close> for \<open>n \<le> mn\<close>, in particular
  for \<open>n = 0\<close>. For \<open>n > mn\<close> it is the smallest multiple of \<open>mn\<close> not less than \<open>n\<close>
  as long as the 64-bit rounding arithmetic does not overflow (\<open>n + mn - 1 < 2^64\<close>),
  and it saturates to \<open>2^64 - 1\<close> when it does, which covers every \<open>n\<close> for which no
  multiple fits in 64 bits. Absent overflow, \<open>SymbolsCharged (k * mn) = k * mn\<close> for
  positive \<open>k\<close> and \<open>SymbolsCharged (k * mn + r) = (k + 1) * mn\<close> for \<open>0 < r < mn\<close>.
\<close>

theorem SymbolsCharged_round_up:
  assumes mn: "GetMinNumSymbols (ChainPaymentState m) = mn" and pos: "mn \<noteq> 0"
  shows "(n \<le> mn \<longrightarrow> SymbolsCharged m n = Some mn)
    \<and> SymbolsCharged m 0 = Some mn
    \<and> (mn < n \<and> unat n + unat mn \<le> 2 ^ 64 \<longrightarrow>
         (\<exists>c. SymbolsCharged m n = Some c \<and> unat mn dvd unat c \<and> unat n \<le> unat c
              \<and> (\<forall>k. unat mn dvd k \<and> unat n \<le> k \<longrightarrow> unat c \<le> k)))
    \<and> (mn < n \<and> 2 ^ 64 < unat n + unat mn \<longrightarrow> SymbolsCharged m n = Some MaxUint64)
    \<and> (mn < n \<and> (\<forall>k. unat mn dvd k \<and> unat n \<le> k \<longrightarrow> 2 ^ 64 \<le> k)
         \<longrightarrow> SymbolsCharged m n = Some MaxUint64)
    \<and> unat MaxUint64 = 2 ^ 64 - 1
    \<and> (\<forall>k. 0 < k \<and> unat n = k * unat mn \<and> unat n + unat mn \<le> 2 ^ 64
         \<longrightarrow> SymbolsCharged m n = Some n)
    \<and> (\<forall>k r. 0 < k \<and> 0 < r \<and> r < unat mn \<and> unat n = k * unat mn + r
            \<and> unat n + unat mn \<le> 2 ^ 64
         \<longrightarrow> (\<exists>c. SymbolsCharged m n = Some c \<and> unat c = (k + 1) * unat mn))"
proof -
  note sc = SymbolsCharged_cases [OF mn pos]
  from pos have b: "0 < unat mn" by (simp add: unat_gt_0)
  let ?c = "(unat n + unat mn - 1) div unat mn * unat mn"
  have c_le: "?c \<le> unat n + unat mn - 1" by simp
  have c_ge: "unat n \<le> ?c" using b by (rule ceil_multiple_ge)
  have c_least: "\<And>k. unat mn dvd k \<Longrightarrow> unat n \<le> k \<Longrightarrow> ?c \<le> k"
    using b by (rule ceil_multiple_least)
  have fits: "unat (word_of_nat ?c :: uint64) = ?c" if "unat n + unat mn \<le> 2 ^ 64"
  proof -
    have "unat n + unat mn - 1 < 2 ^ LENGTH(64)" using that b by simp
    with c_le have "?c < 2 ^ LENGTH(64)" by (rule le_less_trans)
    then show ?thesis by (simp only: unat_of_nat mod_less)
  qed
  have 1: "n \<le> mn \<longrightarrow> SymbolsCharged m n = Some mn" by (simp add: sc)
  have 2: "SymbolsCharged m 0 = Some mn" by (simp add: SymbolsCharged_def mn)
  have 3: "mn < n \<and> unat n + unat mn \<le> 2 ^ 64 \<longrightarrow>
         (\<exists>c. SymbolsCharged m n = Some c \<and> unat mn dvd unat c \<and> unat n \<le> unat c
              \<and> (\<forall>k. unat mn dvd k \<and> unat n \<le> k \<longrightarrow> unat c \<le> k))"
  proof (intro impI, elim conjE)
    assume lt: "mn < n" and f: "unat n + unat mn \<le> 2 ^ 64"
    from lt have "\<not> n \<le> mn" by simp
    then have "SymbolsCharged m n = Some (word_of_nat ?c)" using f by (simp add: sc)
    moreover have "unat mn dvd unat (word_of_nat ?c :: uint64)" by (simp only: fits [OF f]) simp
    moreover have "unat n \<le> unat (word_of_nat ?c :: uint64)" by (simp only: fits [OF f] c_ge)
    moreover have "\<forall>k. unat mn dvd k \<and> unat n \<le> k \<longrightarrow> unat (word_of_nat ?c :: uint64) \<le> k"
      by (simp only: fits [OF f]) (blast intro: c_least)
    ultimately show "\<exists>c. SymbolsCharged m n = Some c \<and> unat mn dvd unat c \<and> unat n \<le> unat c
              \<and> (\<forall>k. unat mn dvd k \<and> unat n \<le> k \<longrightarrow> unat c \<le> k)" by blast
  qed
  have 4: "mn < n \<and> 2 ^ 64 < unat n + unat mn \<longrightarrow> SymbolsCharged m n = Some MaxUint64"
    by (auto simp: sc)
  have 5: "mn < n \<and> (\<forall>k. unat mn dvd k \<and> unat n \<le> k \<longrightarrow> 2 ^ 64 \<le> k)
         \<longrightarrow> SymbolsCharged m n = Some MaxUint64"
  proof (intro impI, elim conjE)
    assume lt: "mn < n" and none: "\<forall>k. unat mn dvd k \<and> unat n \<le> k \<longrightarrow> 2 ^ 64 \<le> k"
    have "unat mn dvd ?c" by simp
    with none c_ge have "2 ^ 64 \<le> ?c" by blast
    then have "2 ^ 64 \<le> unat n + unat mn - 1" using c_le by (rule order_trans)
    then have "2 ^ 64 < unat n + unat mn" by simp
    with lt show "SymbolsCharged m n = Some MaxUint64" by (auto simp: sc)
  qed
  have 6: "unat MaxUint64 = 2 ^ 64 - 1" by (simp add: MaxUint64_def)
  have 7: "\<forall>k. 0 < k \<and> unat n = k * unat mn \<and> unat n + unat mn \<le> 2 ^ 64
         \<longrightarrow> SymbolsCharged m n = Some n"
  proof (intro allI impI, elim conjE)
    fix k assume k: "0 < k" and n: "unat n = k * unat mn" and f: "unat n + unat mn \<le> 2 ^ 64"
    show "SymbolsCharged m n = Some n"
    proof (cases "n \<le> mn")
      case True
      then have "k * unat mn \<le> unat mn" using n by (simp add: word_le_nat_alt)
      with k b have "k = 1" by simp
      with n have "n = mn" by (simp add: word_unat_eq_iff)
      then show ?thesis by (simp add: sc)
    next
      case False
      have "?c \<le> unat n" using c_least [of "unat n"] n by simp
      with c_ge have "?c = unat n" by simp
      then have "(word_of_nat ?c :: uint64) = n" by simp
      with False f show ?thesis by (simp add: sc)
    qed
  qed
  have 8: "\<forall>k r. 0 < k \<and> 0 < r \<and> r < unat mn \<and> unat n = k * unat mn + r
            \<and> unat n + unat mn \<le> 2 ^ 64
         \<longrightarrow> (\<exists>c. SymbolsCharged m n = Some c \<and> unat c = (k + 1) * unat mn)"
  proof (intro allI impI, elim conjE)
    fix k r assume k: "0 < k" and r: "0 < r" "r < unat mn" and n: "unat n = k * unat mn + r"
      and f: "unat n + unat mn \<le> 2 ^ 64"
    have "unat mn < unat n" 
    proof -
      have "unat mn \<le> k * unat mn" using k by simp
      then show ?thesis using n r by linarith
    qed
    then have gt: "\<not> n \<le> mn" by (simp add: word_le_nat_alt)
    have "unat n + unat mn - 1 = (r - 1) + (k + 1) * unat mn" using n r by simp
    then have "(unat n + unat mn - 1) div unat mn = ((r - 1) + (k + 1) * unat mn) div unat mn"
      by (rule arg_cong)
    also have "\<dots> = (k + 1) + (r - 1) div unat mn" using b by (intro div_mult_self1) simp
    also have "\<dots> = k + 1" using r by simp
    finally have "?c = (k + 1) * unat mn" by (rule arg_cong)
    then have "unat (word_of_nat ?c :: uint64) = (k + 1) * unat mn" using fits [OF f] by simp
    moreover have "SymbolsCharged m n = Some (word_of_nat ?c)" using gt f by (simp add: sc)
    ultimately show "\<exists>c. SymbolsCharged m n = Some c \<and> unat c = (k + 1) * unat mn" by blast
  qed
  from 1 2 3 4 5 6 7 8 show ?thesis by (intro conjI)
qed

theorem SymbolsCharged_round_up_witness:
  "GetMinNumSymbols (ChainPaymentState example_meterer) = 3 \<and> (3 :: uint64) \<noteq> 0
   \<and> SymbolsCharged example_meterer 0 = Some 3
   \<and> SymbolsCharged example_meterer 6 = Some 6"
proof -
  have h1: "GetMinNumSymbols (ChainPaymentState example_meterer) = 3"
    by (simp add: example_meterer_def example_chain_def)
  have h2: "(3 :: uint64) \<noteq> 0" by simp
  note t = SymbolsCharged_round_up [OF h1 h2, of 6]
  from t have "SymbolsCharged example_meterer 0 = Some 3" by blast
  moreover from t have "\<forall>k. 0 < k \<and> unat (6 :: uint64) = k * unat (3 :: uint64)
      \<and> unat (6 :: uint64) + unat (3 :: uint64) \<le> 2 ^ 64
         \<longrightarrow> SymbolsCharged example_meterer 6 = Some 6" by blast
  then have "0 < (2::nat) \<and> unat (6 :: uint64) = 2 * unat (3 :: uint64)
      \<and> unat (6 :: uint64) + unat (3 :: uint64) \<le> 2 ^ 64
         \<longrightarrow> SymbolsCharged example_meterer 6 = Some 6" by (rule spec)
  then have "SymbolsCharged example_meterer 6 = Some 6" by simp
  ultimately show ?thesis using h1 h2 by blast
qed

subsection \<open>Period arithmetic\<close>

text \<open>
  C7, as the claim states it, fails for negative seconds: \<open>GetReservationPeriod\<close>
  converts the signed timestamp to \<open>uint64\<close> and divides, so \<open>-1\<close> with window 1 gives
  \<open>2^64 - 1\<close>, not 0.
\<close>

theorem GetReservationPeriod_negative_counterexample:
  "sint (- 1 :: int64) < 0 \<and> GetReservationPeriod (- 1) 1 \<noteq> 0"
  by (simp add: GetReservationPeriod_def)

text \<open>
  C7, amended. \<open>GetReservationPeriod t w\<close> is 0 when \<open>w = 0\<close>; otherwise it is the integer
  quotient \<open>t / w\<close> for every non-negative \<open>t\<close>, and the quotient of the unsigned
  reading \<open>2^64 + t\<close> by \<open>w\<close> for every negative \<open>t\<close>.
\<close>

theorem GetReservationPeriod_division:
  "(w = 0 \<longrightarrow> GetReservationPeriod t w = 0)
   \<and> (w \<noteq> 0 \<and> 0 \<le> sint t \<longrightarrow> uint (GetReservationPeriod t w) = sint t div uint w)
   \<and> (w \<noteq> 0 \<and> sint t < 0 \<longrightarrow> uint (GetReservationPeriod t w) = (2 ^ 64 + sint t) div uint w)"
proof -
  have b: "0 \<le> uint t" "uint t < 2 ^ 64" using uint_lt2p [of t] by simp_all
  have 1: "0 \<le> sint t \<Longrightarrow> sint t = uint t"
    using b by (simp add: sint64_cases split: if_splits)
  have 2: "sint t < 0 \<Longrightarrow> 2 ^ 64 + sint t = uint t"
    using b by (simp add: sint64_cases split: if_splits)
  show ?thesis
    using 1 2 by (auto simp: GetReservationPeriod_def uint_div_distrib)
qed

theorem GetReservationPeriod_division_witness:
  "(60 :: uint64) \<noteq> 0 \<and> 0 \<le> sint (90 :: int64) \<and> uint (GetReservationPeriod 90 60) = 1
   \<and> GetReservationPeriod 90 0 = 0
   \<and> sint (- 1 :: int64) < 0 \<and> uint (GetReservationPeriod (- 1) 60) = 307445734561825860"
proof -
  have h1: "(60 :: uint64) \<noteq> 0" by simp
  have h2: "0 \<le> sint (90 :: int64)" by simp
  have h3: "sint (- 1 :: int64) < 0" by simp
  from GetReservationPeriod_division [of 60 90] h1 h2
  have "uint (GetReservationPeriod 90 60) = sint (90 :: int64) div uint (60 :: uint64)" by blast
  then have a: "uint (GetReservationPeriod 90 60) = 1" by simp
  from GetReservationPeriod_division [of 0 90]
  have b: "GetReservationPeriod 90 0 = 0" by blast
  from GetReservationPeriod_division [of 60 "- 1"] h1 h3
  have "uint (GetReservationPeriod (- 1) 60) = (2 ^ 64 + sint (- 1 :: int64)) div uint (60 :: uint64)"
    by blast
  then have c: "uint (GetReservationPeriod (- 1) 60) = 307445734561825860" by simp
  from h1 h2 h3 a b c show ?thesis by blast
qed

lemma prev_period_nat:
  fixes rp cur e :: "64 word"
  assumes "rp < e"
  shows "(rp = cur - 1) = (unat rp + 1 = unat cur)"
proof
  assume "rp = cur - 1"
  then have c: "cur = rp + 1" by simp
  from assms have "unat rp < unat e" by (simp add: word_less_nat_alt)
  moreover have "unat e < 2 ^ LENGTH(64)" by (rule unsigned_less)
  ultimately have "unat rp + unat (1 :: 64 word) < 2 ^ LENGTH(64)" by simp
  then have "unat (rp + 1) = unat rp + unat (1 :: 64 word)" by (simp only: unat_add_lem)
  then show "unat rp + 1 = unat cur" by (simp add: c)
next
  assume "unat rp + 1 = unat cur"
  then have "word_of_nat (unat rp + 1) = (word_of_nat (unat cur) :: 64 word)" by simp
  then have "rp + 1 = cur" by (simp add: add.commute)
  then show "rp = cur - 1" by auto
qed

text \<open>
  C6. \<open>ValidateReservationPeriod\<close> holds iff the request period is the current period
  (from the Unix seconds of \<open>receivedAt\<close> and the reservation window) or the one before
  it, and lies in \<open>[startPeriod, endPeriod)\<close>. The periods are 64-bit values; the
  second line gives the same condition on their numeric values, where the period
  before period 0 does not exist. A request at \<open>currentPeriod - 1\<close> within the
  reservation passes; one at \<open>currentPeriod - 2\<close> never does.
\<close>

theorem ValidateReservationPeriod_iff:
  "let w = GetReservationWindow (ChainPaymentState m);
       cur = GetReservationPeriod receivedAt w;
       startPeriod = GetReservationPeriod (StartTimestamp reservation) w;
       endPeriod = GetReservationPeriod (EndTimestamp reservation) w;
       ok = ValidateReservationPeriod m reservation rp receivedAt
   in (ok \<longleftrightarrow> (rp = cur \<or> rp = cur - 1) \<and> startPeriod \<le> rp \<and> rp < endPeriod)
    \<and> (ok \<longleftrightarrow> (unat rp = unat cur \<or> unat rp + 1 = unat cur)
                \<and> unat startPeriod \<le> unat rp \<and> unat rp < unat endPeriod)
    \<and> (rp = cur - 1 \<and> startPeriod \<le> rp \<and> rp < endPeriod \<longrightarrow> ok)
    \<and> (rp = cur - 2 \<longrightarrow> \<not> ok)"
proof -
  define w where "w = GetReservationWindow (ChainPaymentState m)"
  define cur where "cur = GetReservationPeriod receivedAt w"
  define startPeriod where "startPeriod = GetReservationPeriod (StartTimestamp reservation) w"
  define endPeriod where "endPeriod = GetReservationPeriod (EndTimestamp reservation) w"
  define ok where "ok = ValidateReservationPeriod m reservation rp receivedAt"
  have 1: "ok \<longleftrightarrow> (rp = cur \<or> rp = cur - 1) \<and> startPeriod \<le> rp \<and> rp < endPeriod"
    unfolding ok_def ValidateReservationPeriod_def Let_def cur_def startPeriod_def endPeriod_def w_def
    by auto
  have 2: "ok \<longleftrightarrow> (unat rp = unat cur \<or> unat rp + 1 = unat cur)
                \<and> unat startPeriod \<le> unat rp \<and> unat rp < unat endPeriod"
  proof (cases "rp < endPeriod")
    case True
    then show ?thesis
      by (simp only: 1 prev_period_nat [OF True])
        (simp add: word_le_nat_alt word_less_nat_alt word_unat_eq_iff)
  next
    case False
    then show ?thesis by (simp add: 1 word_less_nat_alt)
  qed
  have 3: "rp = cur - 1 \<and> startPeriod \<le> rp \<and> rp < endPeriod \<longrightarrow> ok" using 1 by blast
  have 4: "rp = cur - 2 \<longrightarrow> \<not> ok" by (simp add: 1)
  from 1 2 3 4 show ?thesis
    unfolding Let_def w_def [symmetric] cur_def [symmetric] startPeriod_def [symmetric]
      endPeriod_def [symmetric] ok_def [symmetric]
    by (intro conjI)
qed

theorem ValidateReservationPeriod_iff_witness:
  "GetReservationPeriod 90 (GetReservationWindow (ChainPaymentState example_meterer)) = 1
   \<and> ValidateReservationPeriod example_meterer example_reservation 0 90 = True
   \<and> ValidateReservationPeriod example_meterer example_reservation (1 - 2) 90 = False"
proof -
  have w: "GetReservationWindow (ChainPaymentState example_meterer) = 60"
    by (simp add: example_meterer_def example_chain_def)
  have cur: "GetReservationPeriod 90 60 = 1" by (simp add: GetReservationPeriod_def)
  have s: "GetReservationPeriod (StartTimestamp example_reservation) 60 = 0"
    by (simp add: GetReservationPeriod_def example_reservation_def)
  have e: "GetReservationPeriod (EndTimestamp example_reservation) 60 = 10"
    by (simp add: GetReservationPeriod_def example_reservation_def)
  note t = ValidateReservationPeriod_iff [where m = example_meterer and receivedAt = 90
      and reservation = example_reservation, unfolded Let_def w cur s e]
  have h1: "(0 :: uint64) = 1 - 1 \<and> (0 :: uint64) \<le> 0 \<and> (0 :: uint64) < 10" by simp
  from t [of 0] h1 have a: "ValidateReservationPeriod example_meterer example_reservation 0 90"
    by blast
  have h2: "(1 - 2 :: uint64) = 1 - 2" by simp
  from t [of "1 - 2"] h2
  have b: "\<not> ValidateReservationPeriod example_meterer example_reservation (1 - 2) 90"
    by blast
  from a b cur w show ?thesis by simp
qed

subsection \<open>The payment check\<close>

lemma PaymentCharged_defined:
  assumes "GetMinNumSymbols (ChainPaymentState m) \<noteq> 0"
  shows "\<exists>c. PaymentCharged m n = Some c"
  using assms by (simp add: PaymentCharged_def SymbolsCharged_def RoundUpDivide_def Let_def)

text \<open>
  C1. A cumulative payment above the deposit is rejected first, before the store is
  asked. When the store returns the neighbours \<open>(prevPmt, nextPmt, nextPmtNumSymbols)\<close>,
  with \<open>c\<close> the payment charged for the request's symbols and \<open>cn\<close> the payment charged
  for the successor's symbols, \<open>ValidatePayment\<close> runs the three checks in order, each
  with its own rejection, and accepts iff the payment is within the deposit,
  \<open>prevPmt + c\<close> does not exceed it, and \<open>nextPmt\<close> is zero or at least the payment
  plus \<open>cn\<close>.
\<close>

theorem ValidatePayment_accepts_iff:
  "(DepositCumulativePayment onDemandPayment < CumulativePayment header \<longrightarrow>
      ValidatePayment m st header onDemandPayment s =
        Err (Errorf ''request claims a cumulative payment greater than the on-chain deposit''))
   \<and> (GetRelevantOnDemandRecords st (AccountID header) (CumulativePayment header)
         = Inr (prevPmt, nextPmt, nextPmtNumSymbols)
       \<and> PaymentCharged m s = Some c
       \<and> (nextPmt \<noteq> 0 \<longrightarrow> PaymentCharged m nextPmtNumSymbols = Some cn) \<longrightarrow>
      ValidatePayment m st header onDemandPayment s =
        (if DepositCumulativePayment onDemandPayment < CumulativePayment header
         then Err (Errorf ''request claims a cumulative payment greater than the on-chain deposit'')
         else if CumulativePayment header < prevPmt + c
         then Err (Errorf ''insufficient cumulative payment increment'')
         else if nextPmt \<noteq> 0 \<and> nextPmt < CumulativePayment header + cn
         then Err (Errorf ''breaking cumulative payment invariants'')
         else Ok ())
      \<and> (ValidatePayment m st header onDemandPayment s = Ok () \<longleftrightarrow>
           CumulativePayment header \<le> DepositCumulativePayment onDemandPayment
           \<and> prevPmt + c \<le> CumulativePayment header
           \<and> (nextPmt = 0 \<or> CumulativePayment header + cn \<le> nextPmt)))"
  by (auto simp: ValidatePayment_def)

theorem ValidatePayment_accepts_iff_witness:
  "GetRelevantOnDemandRecords example_store (AccountID (example_header 560))
       (CumulativePayment (example_header 560)) = Inr (500, 0, 0)
   \<and> PaymentCharged example_meterer 6 = Some 60
   \<and> ValidatePayment example_meterer example_store (example_header 560)
         \<lparr>DepositCumulativePayment = 10000\<rparr> 6 = Ok ()
   \<and> ValidatePayment example_meterer example_store (example_header 560)
         \<lparr>DepositCumulativePayment = 100\<rparr> 6
       = Err (Errorf ''request claims a cumulative payment greater than the on-chain deposit'')"
proof -
  have recs: "GetRelevantOnDemandRecords example_store (AccountID (example_header 560))
       (CumulativePayment (example_header 560)) = Inr (500, 0, 0)"
    by (simp add: GetRelevantOnDemandRecords_def example_store_def example_header_def)
  have c: "PaymentCharged example_meterer 6 = Some 60"
    by (simp add: PaymentCharged_def SymbolsCharged_def RoundUpDivide_def example_meterer_def
        example_chain_def)
  have cn: "(0 :: int) \<noteq> 0 \<longrightarrow> PaymentCharged example_meterer 0 = Some 0" by simp
  note t = ValidatePayment_accepts_iff [where st = example_store and header = "example_header 560"
      and m = example_meterer and s = 6 and prevPmt = 500 and nextPmt = 0
      and nextPmtNumSymbols = 0 and c = 60 and cn = 0]
  from t [of "\<lparr>DepositCumulativePayment = 10000\<rparr>"] recs c cn
  have "ValidatePayment example_meterer example_store (example_header 560)
         \<lparr>DepositCumulativePayment = 10000\<rparr> 6 = Ok () \<longleftrightarrow>
           CumulativePayment (example_header 560)
             \<le> DepositCumulativePayment \<lparr>DepositCumulativePayment = 10000\<rparr>
           \<and> 500 + 60 \<le> CumulativePayment (example_header 560)
           \<and> ((0 :: int) = 0 \<or> CumulativePayment (example_header 560) + 0 \<le> 0)"
    by blast
  then have a: "ValidatePayment example_meterer example_store (example_header 560)
         \<lparr>DepositCumulativePayment = 10000\<rparr> 6 = Ok ()"
    by (simp add: example_header_def)
  have d: "DepositCumulativePayment \<lparr>DepositCumulativePayment = 100\<rparr>
             < CumulativePayment (example_header 560)"
    by (simp add: example_header_def)
  from t [of "\<lparr>DepositCumulativePayment = 100\<rparr>"] d
  have b: "ValidatePayment example_meterer example_store (example_header 560)
         \<lparr>DepositCumulativePayment = 100\<rparr> 6
       = Err (Errorf ''request claims a cumulative payment greater than the on-chain deposit'')"
    by blast
  from recs c a b show ?thesis by blast
qed

subsection \<open>The reservation bin\<close>

lemma UpdateReservationBin_Inr:
  assumes "UpdateReservationBin st a p d = (Inr U, st1)"
  shows "Outage st (UpdateReservationBinCall a p d) = None"
    and "U = ReservationBins st (a, p) + d"
    and "st1 = st\<lparr>Writes := Writes st @ [UpdateReservationBinCall a p d],
                   ReservationBins := (ReservationBins st)((a, p) := U)\<rparr>"
  using assms by (auto simp: UpdateReservationBin_def Let_def split: option.splits)

lemma UpdateReservationBin_Inl:
  assumes "UpdateReservationBin st a p d = (Inl e, st1)"
  shows "Outage st (UpdateReservationBinCall a p d) = Some e"
    and "st1 = st\<lparr>Writes := Writes st @ [UpdateReservationBinCall a p d]\<rparr>"
  using assms by (auto simp: UpdateReservationBin_def Let_def split: option.splits)

lemma UpdateReservationBin_ok:
  assumes "Outage st (UpdateReservationBinCall a p d) = None"
  shows "UpdateReservationBin st a p d =
           (Inr (ReservationBins st (a, p) + d),
            st\<lparr>Writes := Writes st @ [UpdateReservationBinCall a p d],
               ReservationBins := (ReservationBins st)((a, p) := ReservationBins st (a, p) + d)\<rparr>)"
  using assms by (simp add: UpdateReservationBin_def Let_def)

lemma UpdateReservationBin_fails:
  assumes "Outage st (UpdateReservationBinCall a p d) = Some e"
  shows "UpdateReservationBin st a p d =
           (Inl e, st\<lparr>Writes := Writes st @ [UpdateReservationBinCall a p d]\<rparr>)"
  using assms by (simp add: UpdateReservationBin_def Let_def)

lemma IncrementBinUsage_after_increment:
  assumes "UpdateReservationBin st (AccountID header) rp sc = (Inr U, st1)"
  shows "IncrementBinUsage m st header reservation sc rp =
     (let L = GetReservationBinLimit m reservation in
      if U \<le> L then (Inr (), st1)
      else if L \<le> U - sc then (Inl (Errorf ''bin has already been filled''), st1)
      else if U \<le> 2 * L \<and> rp + 2 \<le> GetReservationPeriod (EndTimestamp reservation)
                                      (GetReservationWindow (ChainPaymentState m))
      then (case UpdateReservationBin st1 (AccountID header) (rp + 2) (U - L) of
              (Inl err, st2) \<Rightarrow> (Inl err, st2)
            | (Inr _, st2) \<Rightarrow> (Inr (), st2))
      else (Inl (Errorf ''overflow usage exceeds bin limit''), st1))"
  by (simp add: IncrementBinUsage_def assms Let_def)

lemma bin_conditions_numeric:
  fixes U sc rp endPeriod sps w :: "64 word"
  assumes L: "L = sps * w"
    and fits: "2 * (unat sps * unat w) < 2 ^ 64"
    and rp: "unat rp + 2 < 2 ^ 64"
    and sc: "unat sc \<le> unat U"
  shows "unat L = unat sps * unat w"
    and "U \<le> L \<longleftrightarrow> unat U \<le> unat L"
    and "L \<le> U - sc \<longleftrightarrow> unat L \<le> unat U - unat sc"
    and "U \<le> 2 * L \<longleftrightarrow> unat U \<le> 2 * unat L"
    and "rp + 2 \<le> endPeriod \<longleftrightarrow> unat rp + 2 \<le> unat endPeriod"
proof -
  from fits have "unat sps * unat w < 2 ^ LENGTH(64)" by simp
  then show l: "unat L = unat sps * unat w" by (simp only: L unat_mult_lem)
  show "U \<le> L \<longleftrightarrow> unat U \<le> unat L" by (rule word_le_nat_alt)
  from sc have "sc \<le> U" by (simp add: word_le_nat_alt)
  then have "unat (U - sc) = unat U - unat sc" by (rule unat_sub)
  then show "L \<le> U - sc \<longleftrightarrow> unat L \<le> unat U - unat sc" by (simp add: word_le_nat_alt)
  have "unat (2 :: 64 word) * unat L < 2 ^ LENGTH(64)" using fits by (simp add: l)
  then have "unat (2 * L) = unat (2 :: 64 word) * unat L" by (simp only: unat_mult_lem)
  then show "U \<le> 2 * L \<longleftrightarrow> unat U \<le> 2 * unat L" by (simp add: word_le_nat_alt)
  have "unat rp + unat (2 :: 64 word) < 2 ^ LENGTH(64)" using rp by simp
  then have "unat (rp + 2) = unat rp + unat (2 :: 64 word)" by (simp only: unat_add_lem)
  then show "rp + 2 \<le> endPeriod \<longleftrightarrow> unat rp + 2 \<le> unat endPeriod"
    by (simp add: word_le_nat_alt)
qed

text \<open>
  C2. After the store has added \<open>sc\<close> symbols to the bin of the account and the request
  period, giving the new usage \<open>U\<close>, and with the limit
  \<open>L = symbolsPerSecond * reservationWindow\<close> (all in the 64-bit arithmetic of the
  code): the request is accepted with no further write iff \<open>U \<le> L\<close>; it is rejected as
  already filled iff \<open>U > L\<close> and \<open>U - sc \<ge> L\<close>; a second write, of the excess \<open>U - L\<close>
  into the bin of period \<open>rp + 2\<close>, is made iff \<open>L < U \<le> 2L\<close>, \<open>U - sc < L\<close> and
  \<open>rp + 2 \<le> endPeriod\<close>, and the request is then accepted once that write has
  succeeded; otherwise it is rejected as an overflow beyond the bin limit. As long as
  \<open>2L\<close> and \<open>rp + 2\<close> stay below \<open>2^64\<close> and the usage has not wrapped (\<open>sc \<le> U\<close>),
  these comparisons are the comparisons of the numbers themselves.
\<close>

theorem IncrementBinUsage_decision:
  assumes first: "UpdateReservationBin st (AccountID header) rp sc = (Inr U, st1)"
    and L: "L = GetReservationBinLimit m reservation"
    and endPeriod: "endPeriod = GetReservationPeriod (EndTimestamp reservation)
                                  (GetReservationWindow (ChainPaymentState m))"
    and r: "r = IncrementBinUsage m st header reservation sc rp"
    and carry: "carry = UpdateReservationBinCall (AccountID header) (rp + 2) (U - L)"
  shows "(r = (Inr (), st1) \<longleftrightarrow> U \<le> L)
    \<and> (r = (Inl (Errorf ''bin has already been filled''), st1) \<longleftrightarrow> L < U \<and> L \<le> U - sc)
    \<and> (Writes (snd r) = Writes st1 @ [carry]
         \<longleftrightarrow> L < U \<and> U \<le> 2 * L \<and> U - sc < L \<and> rp + 2 \<le> endPeriod)
    \<and> (L < U \<and> U \<le> 2 * L \<and> U - sc < L \<and> rp + 2 \<le> endPeriod \<and> Outage st carry = None
         \<longrightarrow> r = (Inr (), st1\<lparr>Writes := Writes st1 @ [carry],
                  ReservationBins := (ReservationBins st1)((AccountID header, rp + 2) :=
                     ReservationBins st1 (AccountID header, rp + 2) + (U - L))\<rparr>))
    \<and> (r = (Inl (Errorf ''overflow usage exceeds bin limit''), st1)
         \<longleftrightarrow> \<not> U \<le> L \<and> \<not> (L < U \<and> L \<le> U - sc)
             \<and> \<not> (L < U \<and> U \<le> 2 * L \<and> U - sc < L \<and> rp + 2 \<le> endPeriod))
    \<and> (2 * (unat (SymbolsPerSecond reservation) * unat (GetReservationWindow (ChainPaymentState m)))
           < 2 ^ 64
        \<and> unat rp + 2 < 2 ^ 64 \<and> unat sc \<le> unat U \<longrightarrow>
          unat L = unat (SymbolsPerSecond reservation)
                     * unat (GetReservationWindow (ChainPaymentState m))
          \<and> (U \<le> L \<longleftrightarrow> unat U \<le> unat L)
          \<and> (L \<le> U - sc \<longleftrightarrow> unat L \<le> unat U - unat sc)
          \<and> (U \<le> 2 * L \<longleftrightarrow> unat U \<le> 2 * unat L)
          \<and> (rp + 2 \<le> endPeriod \<longleftrightarrow> unat rp + 2 \<le> unat endPeriod))"
proof -
  have main: "(r = (Inr (), st1) \<longleftrightarrow> U \<le> L)
    \<and> (r = (Inl (Errorf ''bin has already been filled''), st1) \<longleftrightarrow> L < U \<and> L \<le> U - sc)
    \<and> (Writes (snd r) = Writes st1 @ [carry]
         \<longleftrightarrow> L < U \<and> U \<le> 2 * L \<and> U - sc < L \<and> rp + 2 \<le> endPeriod)
    \<and> (L < U \<and> U \<le> 2 * L \<and> U - sc < L \<and> rp + 2 \<le> endPeriod \<and> Outage st carry = None
         \<longrightarrow> r = (Inr (), st1\<lparr>Writes := Writes st1 @ [carry],
                  ReservationBins := (ReservationBins st1)((AccountID header, rp + 2) :=
                     ReservationBins st1 (AccountID header, rp + 2) + (U - L))\<rparr>))
    \<and> (r = (Inl (Errorf ''overflow usage exceeds bin limit''), st1)
         \<longleftrightarrow> \<not> U \<le> L \<and> \<not> (L < U \<and> L \<le> U - sc)
             \<and> \<not> (L < U \<and> U \<le> 2 * L \<and> U - sc < L \<and> rp + 2 \<le> endPeriod))"
  proof -
    note out = UpdateReservationBin_Inr [OF first]
    have o1: "Outage st1 = Outage st" by (simp add: out(3))
    have neq: "\<And>x y. (x, st1\<lparr>Writes := Writes st1 @ [carry], ReservationBins := y\<rparr>) \<noteq> (Inr (), st1)"
    proof
      fix x y assume "(x, st1\<lparr>Writes := Writes st1 @ [carry], ReservationBins := y\<rparr>) = (Inr (), st1)"
      then have "Writes (st1\<lparr>Writes := Writes st1 @ [carry], ReservationBins := y\<rparr>) = Writes st1"
        by simp
      then show False by simp
    qed
    show ?thesis
    proof (cases "Outage st carry")
      case None
      then have c: "UpdateReservationBin st1 (AccountID header) (rp + 2) (U - L) =
             (Inr (ReservationBins st1 (AccountID header, rp + 2) + (U - L)),
              st1\<lparr>Writes := Writes st1 @ [carry],
                 ReservationBins := (ReservationBins st1)((AccountID header, rp + 2) :=
                   ReservationBins st1 (AccountID header, rp + 2) + (U - L))\<rparr>)"
        unfolding carry by (intro UpdateReservationBin_ok) (simp add: o1)
      show ?thesis
        unfolding r IncrementBinUsage_after_increment [OF first] Let_def L [symmetric]
          endPeriod [symmetric]
        using neq neq [symmetric] by (auto simp: c None)
    next
      case (Some e)
      then have c: "UpdateReservationBin st1 (AccountID header) (rp + 2) (U - L) =
             (Inl e, st1\<lparr>Writes := Writes st1 @ [carry]\<rparr>)"
        unfolding carry by (intro UpdateReservationBin_fails) (simp add: o1)
      have neq2: "st1\<lparr>Writes := Writes st1 @ [carry]\<rparr> \<noteq> st1"
      proof
        assume "st1\<lparr>Writes := Writes st1 @ [carry]\<rparr> = st1"
        then have "Writes (st1\<lparr>Writes := Writes st1 @ [carry]\<rparr>) = Writes st1" by simp
        then show False by simp
      qed
      show ?thesis
        unfolding r IncrementBinUsage_after_increment [OF first] Let_def L [symmetric]
          endPeriod [symmetric]
        using neq2 by (auto simp: c Some)
    qed
  qed
  have num: "(2 * (unat (SymbolsPerSecond reservation) * unat (GetReservationWindow (ChainPaymentState m)))
           < 2 ^ 64
        \<and> unat rp + 2 < 2 ^ 64 \<and> unat sc \<le> unat U \<longrightarrow>
          unat L = unat (SymbolsPerSecond reservation)
                     * unat (GetReservationWindow (ChainPaymentState m))
          \<and> (U \<le> L \<longleftrightarrow> unat U \<le> unat L)
          \<and> (L \<le> U - sc \<longleftrightarrow> unat L \<le> unat U - unat sc)
          \<and> (U \<le> 2 * L \<longleftrightarrow> unat U \<le> 2 * unat L)
          \<and> (rp + 2 \<le> endPeriod \<longleftrightarrow> unat rp + 2 \<le> unat endPeriod))"
  proof (intro impI, elim conjE)
    assume a: "2 * (unat (SymbolsPerSecond reservation)
                    * unat (GetReservationWindow (ChainPaymentState m))) < 2 ^ 64"
      "unat rp + 2 < 2 ^ 64" "unat sc \<le> unat U"
    have L': "L = SymbolsPerSecond reservation * GetReservationWindow (ChainPaymentState m)"
      by (simp add: L GetReservationBinLimit_def)
    note n = bin_conditions_numeric [OF L' a]
    show "unat L = unat (SymbolsPerSecond reservation)
                     * unat (GetReservationWindow (ChainPaymentState m))
          \<and> (U \<le> L \<longleftrightarrow> unat U \<le> unat L)
          \<and> (L \<le> U - sc \<longleftrightarrow> unat L \<le> unat U - unat sc)
          \<and> (U \<le> 2 * L \<longleftrightarrow> unat U \<le> 2 * unat L)
          \<and> (rp + 2 \<le> endPeriod \<longleftrightarrow> unat rp + 2 \<le> unat endPeriod)"
      by (intro conjI) (rule n)+
  qed
  from main num show ?thesis by (elim conjE) (intro conjI, assumption+)
qed

theorem IncrementBinUsage_decision_witness:
  "fst (UpdateReservationBin example_store_loaded (AccountID (example_header 0)) 0 21) = Inr 316
   \<and> GetReservationBinLimit example_meterer example_reservation = 300
   \<and> fst (IncrementBinUsage example_meterer example_store_loaded (example_header 0)
             example_reservation 21 0) = Inr ()
   \<and> ReservationBins (snd (IncrementBinUsage example_meterer example_store_loaded
         (example_header 0) example_reservation 21 0)) (''0xA'', 2) = 16"
proof -
  define st1 where
    "st1 = snd (UpdateReservationBin example_store_loaded (AccountID (example_header 0)) 0 21)"
  have first: "UpdateReservationBin example_store_loaded (AccountID (example_header 0)) 0 21
                 = (Inr 316, st1)"
    by (simp add: st1_def UpdateReservationBin_def example_store_loaded_def example_store_def
        example_header_def Let_def)
  have L: "GetReservationBinLimit example_meterer example_reservation = 300"
    by (simp add: GetReservationBinLimit_def example_meterer_def example_chain_def
        example_reservation_def)
  have e: "GetReservationPeriod (EndTimestamp example_reservation)
             (GetReservationWindow (ChainPaymentState example_meterer)) = 10"
    by (simp add: GetReservationPeriod_def example_meterer_def example_chain_def
        example_reservation_def)
  have o: "Outage example_store_loaded
             (UpdateReservationBinCall (AccountID (example_header 0)) (0 + 2) (316 - 300)) = None"
    by (simp add: example_store_loaded_def example_store_def)
  have conds: "(300 :: uint64) < 316 \<and> (316 :: uint64) \<le> 2 * 300 \<and> (316 - 21 :: uint64) < 300
      \<and> (0 + 2 :: uint64) \<le> 10"
    by simp
  note t = IncrementBinUsage_decision [OF first L [symmetric] e [symmetric] refl refl]
  from t conds o
  have r: "IncrementBinUsage example_meterer example_store_loaded (example_header 0)
             example_reservation 21 0
       = (Inr (), st1\<lparr>Writes := Writes st1 @
             [UpdateReservationBinCall (AccountID (example_header 0)) (0 + 2) (316 - 300)],
           ReservationBins := (ReservationBins st1)((AccountID (example_header 0), 0 + 2) :=
             ReservationBins st1 (AccountID (example_header 0), 0 + 2) + (316 - 300))\<rparr>)"
    by blast
  have b: "ReservationBins st1 (''0xA'', 2) = 0"
    by (simp add: st1_def UpdateReservationBin_def example_store_loaded_def example_store_def
        example_header_def Let_def)
  have h: "AccountID (example_header 0) = ''0xA''" by (simp add: example_header_def)
  from first L show ?thesis by (simp add: r b h)
qed

text \<open>
  C9. Once the primary increment has succeeded, the bin of the request period holds
  the full \<open>sc\<close> symbols more than before, whatever \<open>IncrementBinUsage\<close> returns. When
  the carry write to period \<open>rp + 2\<close> fails, \<open>IncrementBinUsage\<close> returns the store's
  error as it is; the store has received the two writes and no other, and the bins
  are as the primary increment left them.
\<close>

theorem IncrementBinUsage_no_rollback:
  assumes first: "UpdateReservationBin st (AccountID header) rp sc = (Inr U, st1)"
  shows "ReservationBins (snd (IncrementBinUsage m st header reservation sc rp))
           (AccountID header, rp) = ReservationBins st (AccountID header, rp) + sc
    \<and> (let L = GetReservationBinLimit m reservation in
        \<not> U \<le> L \<and> \<not> L \<le> U - sc \<and> U \<le> 2 * L
        \<and> rp + 2 \<le> GetReservationPeriod (EndTimestamp reservation)
                      (GetReservationWindow (ChainPaymentState m))
        \<and> UpdateReservationBin st1 (AccountID header) (rp + 2) (U - L) = (Inl e, st2)
        \<longrightarrow> IncrementBinUsage m st header reservation sc rp = (Inl e, st2)
          \<and> ReservationBins st2 (AccountID header, rp)
              = ReservationBins st (AccountID header, rp) + sc
          \<and> ReservationBins st2 = ReservationBins st1
          \<and> Writes st2 = Writes st @ [UpdateReservationBinCall (AccountID header) rp sc,
                                       UpdateReservationBinCall (AccountID header) (rp + 2) (U - L)])"
proof -
  note out = UpdateReservationBin_Inr [OF first]
  have p: "ReservationBins st1 (AccountID header, rp) = ReservationBins st (AccountID header, rp) + sc"
    by (simp add: out(3) out(2))
  have w1: "Writes st1 = Writes st @ [UpdateReservationBinCall (AccountID header) rp sc]"
    by (simp add: out(3))
  have two: "rp + 2 \<noteq> rp" by simp
  have keep: "ReservationBins (snd (UpdateReservationBin st1 (AccountID header) (rp + 2) d))
                (AccountID header, rp) = ReservationBins st1 (AccountID header, rp)" for d
    using two by (simp add: UpdateReservationBin_def Let_def split: option.splits)
  have 1: "ReservationBins (snd (IncrementBinUsage m st header reservation sc rp))
           (AccountID header, rp) = ReservationBins st (AccountID header, rp) + sc"
    unfolding IncrementBinUsage_after_increment [OF first] Let_def
    using keep [of "U - GetReservationBinLimit m reservation"]
    by (auto simp: p split: prod.splits sum.splits)
  have 2: "\<not> U \<le> L \<and> \<not> L \<le> U - sc \<and> U \<le> 2 * L
        \<and> rp + 2 \<le> GetReservationPeriod (EndTimestamp reservation)
                      (GetReservationWindow (ChainPaymentState m))
        \<and> UpdateReservationBin st1 (AccountID header) (rp + 2) (U - L) = (Inl e, st2)
        \<longrightarrow> IncrementBinUsage m st header reservation sc rp = (Inl e, st2)
          \<and> ReservationBins st2 (AccountID header, rp)
              = ReservationBins st (AccountID header, rp) + sc
          \<and> ReservationBins st2 = ReservationBins st1
          \<and> Writes st2 = Writes st @ [UpdateReservationBinCall (AccountID header) rp sc,
                                       UpdateReservationBinCall (AccountID header) (rp + 2) (U - L)]"
    if "L = GetReservationBinLimit m reservation" for L
  proof (intro impI, elim conjE)
    assume c: "\<not> U \<le> L" "\<not> L \<le> U - sc" "U \<le> 2 * L"
      "rp + 2 \<le> GetReservationPeriod (EndTimestamp reservation)
                      (GetReservationWindow (ChainPaymentState m))"
      and f: "UpdateReservationBin st1 (AccountID header) (rp + 2) (U - L) = (Inl e, st2)"
    note fl = UpdateReservationBin_Inl [OF f]
    have "IncrementBinUsage m st header reservation sc rp = (Inl e, st2)"
      unfolding IncrementBinUsage_after_increment [OF first] Let_def that [symmetric]
      using c by (simp add: f)
    moreover have "ReservationBins st2 = ReservationBins st1" by (simp add: fl(2))
    moreover have "Writes st2 = Writes st @ [UpdateReservationBinCall (AccountID header) rp sc,
                                       UpdateReservationBinCall (AccountID header) (rp + 2) (U - L)]"
      by (simp add: fl(2) w1)
    ultimately show "IncrementBinUsage m st header reservation sc rp = (Inl e, st2)
          \<and> ReservationBins st2 (AccountID header, rp)
              = ReservationBins st (AccountID header, rp) + sc
          \<and> ReservationBins st2 = ReservationBins st1
          \<and> Writes st2 = Writes st @ [UpdateReservationBinCall (AccountID header) rp sc,
                                       UpdateReservationBinCall (AccountID header) (rp + 2) (U - L)]"
      using p by simp
  qed
  from 1 2 [OF refl] show ?thesis unfolding Let_def by (intro conjI)
qed

theorem IncrementBinUsage_no_rollback_witness:
  "fst (UpdateReservationBin example_store_carry_outage (AccountID (example_header 0)) 0 21)
     = Inr 316
   \<and> fst (IncrementBinUsage example_meterer example_store_carry_outage (example_header 0)
             example_reservation 21 0) = Inl (Errorf ''store unavailable'')
   \<and> ReservationBins (snd (IncrementBinUsage example_meterer example_store_carry_outage
         (example_header 0) example_reservation 21 0)) (''0xA'', 0) = 316"
proof -
  define st1 where
    "st1 = snd (UpdateReservationBin example_store_carry_outage (AccountID (example_header 0)) 0 21)"
  define st2 where
    "st2 = snd (UpdateReservationBin st1 (AccountID (example_header 0)) (0 + 2)
                  (316 - GetReservationBinLimit example_meterer example_reservation))"
  have L: "GetReservationBinLimit example_meterer example_reservation = 300"
    by (simp add: GetReservationBinLimit_def example_meterer_def example_chain_def
        example_reservation_def)
  have first: "UpdateReservationBin example_store_carry_outage (AccountID (example_header 0)) 0 21
                 = (Inr 316, st1)"
    by (simp add: st1_def UpdateReservationBin_def example_store_carry_outage_def
        example_store_loaded_def example_store_def example_header_def Let_def)
  have second: "UpdateReservationBin st1 (AccountID (example_header 0)) (0 + 2)
                  (316 - GetReservationBinLimit example_meterer example_reservation)
                 = (Inl (Errorf ''store unavailable''), st2)"
    by (simp add: st2_def st1_def L UpdateReservationBin_def example_store_carry_outage_def
        example_store_loaded_def example_store_def example_header_def Let_def)
  have e: "GetReservationPeriod (EndTimestamp example_reservation)
             (GetReservationWindow (ChainPaymentState example_meterer)) = 10"
    by (simp add: GetReservationPeriod_def example_meterer_def example_chain_def
        example_reservation_def)
  have conds: "\<not> (316 :: uint64) \<le> 300 \<and> \<not> (300 :: uint64) \<le> 316 - 21
      \<and> (316 :: uint64) \<le> 2 * 300 \<and> (0 + 2 :: uint64) \<le> 10"
    by simp
  note t = IncrementBinUsage_no_rollback [OF first, where m = example_meterer
      and reservation = example_reservation and e = "Errorf ''store unavailable''" and ?st2.0 = st2,
      unfolded Let_def]
  from t [unfolded L e] conds second [unfolded L]
  have r: "IncrementBinUsage example_meterer example_store_carry_outage (example_header 0)
             example_reservation 21 0 = (Inl (Errorf ''store unavailable''), st2)"
    and b: "ReservationBins st2 (AccountID (example_header 0), 0)
             = ReservationBins example_store_carry_outage (AccountID (example_header 0), 0) + 21"
    by blast+
  have b0: "ReservationBins example_store_carry_outage (''0xA'', 0) = 295"
    by (simp add: example_store_carry_outage_def example_store_loaded_def)
  have h: "AccountID (example_header 0) = ''0xA''" by (simp add: example_header_def)
  from first b show ?thesis by (simp add: r b0 h)
qed

subsection \<open>The on-demand ledger and the global bin\<close>

lemma AddOnDemandPayment_Inr:
  assumes "AddOnDemandPayment st header sc = (Inr u, st1)"
  shows "\<not> ledger_has (OnDemandLedger st) (AccountID header) (CumulativePayment header)"
    and "st1 = st\<lparr>Writes := Writes st @
                   [AddOnDemandPaymentCall (AccountID header) (CumulativePayment header) sc],
                 OnDemandLedger := OnDemandLedger st @
                   [(AccountID header, CumulativePayment header, sc)]\<rparr>"
  using assms by (auto simp: AddOnDemandPayment_def Let_def split: option.splits if_splits)

lemma UpdateGlobalBin_effect:
  assumes "UpdateGlobalBin st p d = (g, st1)"
  shows "OnDemandLedger st1 = OnDemandLedger st" and "Outage st1 = Outage st"
    and "ReservationBins st1 = ReservationBins st"
    and "Writes st1 = Writes st @ [UpdateGlobalBinCall p d]"
  using assms by (auto simp: UpdateGlobalBin_def Let_def split: option.splits)

lemma RemoveOnDemandPayment_cases:
  "RemoveOnDemandPayment st a p =
     (case Outage st (RemoveOnDemandPaymentCall a p) of
        Some err \<Rightarrow> (Inl err, st\<lparr>Writes := Writes st @ [RemoveOnDemandPaymentCall a p]\<rparr>)
      | None \<Rightarrow> (Inr (), st\<lparr>Writes := Writes st @ [RemoveOnDemandPaymentCall a p],
            OnDemandLedger := filter (\<lambda>(a', p', n). \<not> (a' = a \<and> p' = p)) (OnDemandLedger st)\<rparr>))"
  by (simp add: RemoveOnDemandPayment_def Let_def)

lemma filter_absent:
  "\<not> ledger_has l a p \<Longrightarrow> filter (\<lambda>(a', p', n). \<not> (a' = a \<and> p' = p)) l = l"
  by (induction l) (auto simp: ledger_has_def)

lemma remove_added:
  assumes "\<not> ledger_has l a p"
  shows "filter (\<lambda>(a', p', n). \<not> (a' = a \<and> p' = p)) (l @ [(a, p, n)]) = l"
  using filter_absent [OF assms] by simp

lemma ValidatePayment_cong:
  assumes "OnDemandLedger st' = OnDemandLedger st" "Outage st' = Outage st"
  shows "ValidatePayment m st' header odp sc = ValidatePayment m st header odp sc"
proof -
  have "GetRelevantOnDemandRecords st' a p = GetRelevantOnDemandRecords st a p" for a p
    unfolding GetRelevantOnDemandRecords_def assms ..
  then show ?thesis by (simp add: ValidatePayment_def)
qed

lemma IncrementGlobalBinUsage_fails:
  assumes g: "UpdateGlobalBin st1 (GetReservationPeriod receivedAt
                 (GetGlobalRatePeriodInterval (ChainPaymentState m))) sc = (g, st2)"
    and over: "case g of Inl e \<Rightarrow> True
               | Inr U \<Rightarrow> GetGlobalSymbolsPerSecond (ChainPaymentState m)
                          * GetGlobalRatePeriodInterval (ChainPaymentState m) < U"
  shows "IncrementGlobalBinUsage m st1 sc receivedAt =
           (Inl (case g of Inl e \<Rightarrow> ErrorfW ''failed to increment global bin usage'' e
                 | Inr U \<Rightarrow> Errorf ''global bin usage overflows''), st2)"
  using over by (cases g) (simp_all add: IncrementGlobalBinUsage_def g Let_def)

text \<open>
  C3. Take an on-demand request that has passed the quorum and payment checks and whose
  ledger insert has succeeded. If the global-bin increment then fails, or returns a
  usage above \<open>globalSymbolsPerSecond * globalRatePeriodInterval\<close> (the 64-bit
  product of the code), the meterer asks the store to remove the entry (account,
  cumulative payment) it has just inserted and rejects. If the removal fails, its error
  is what the caller gets. If it succeeds, the rejection carries the global-bin error,
  the ledger is what it was before the request, and the same request passes the
  payment check again.
\<close>

theorem ServeOnDemandRequest_compensates:
  assumes q: "GetOnDemandQuorumNumbers (ChainPaymentState m) = Inr qs"
    and vq: "ValidateQuorum hq qs = Inr ()"
    and vp: "ValidatePayment m st header odp sc = Ok ()"
    and add: "AddOnDemandPayment st header sc = (Inr (), st1)"
    and g: "UpdateGlobalBin st1 (GetReservationPeriod receivedAt
                 (GetGlobalRatePeriodInterval (ChainPaymentState m))) sc = (g, st2)"
    and over: "case g of Inl e \<Rightarrow> True
               | Inr U \<Rightarrow> GetGlobalSymbolsPerSecond (ChainPaymentState m)
                          * GetGlobalRatePeriodInterval (ChainPaymentState m) < U"
  shows "(case RemoveOnDemandPayment st2 (AccountID header) (CumulativePayment header) of
            (Inl dbErr, st3) \<Rightarrow>
              ServeOnDemandRequest m st header odp sc hq receivedAt = (Err dbErr, st3)
          | (Inr _, st3) \<Rightarrow>
              ServeOnDemandRequest m st header odp sc hq receivedAt =
                (Err (ErrorfW ''failed global rate limiting''
                       (case g of Inl e \<Rightarrow> ErrorfW ''failed to increment global bin usage'' e
                        | Inr U \<Rightarrow> Errorf ''global bin usage overflows'')), st3)
              \<and> OnDemandLedger st3 = OnDemandLedger st
              \<and> ValidatePayment m st3 header odp sc = Ok ())
    \<and> Writes (snd (ServeOnDemandRequest m st header odp sc hq receivedAt)) =
        Writes st @
          [AddOnDemandPaymentCall (AccountID header) (CumulativePayment header) sc,
           UpdateGlobalBinCall (GetReservationPeriod receivedAt
              (GetGlobalRatePeriodInterval (ChainPaymentState m))) sc,
           RemoveOnDemandPaymentCall (AccountID header) (CumulativePayment header)]"
proof -
  note a = AddOnDemandPayment_Inr [OF add]
  note u = UpdateGlobalBin_effect [OF g]
  note gf = IncrementGlobalBinUsage_fails [OF g over]
  have serve: "ServeOnDemandRequest m st header odp sc hq receivedAt =
      (case RemoveOnDemandPayment st2 (AccountID header) (CumulativePayment header) of
         (Inl dbErr, st3) \<Rightarrow> (Err dbErr, st3)
       | (Inr _, st3) \<Rightarrow> (Err (ErrorfW ''failed global rate limiting''
                       (case g of Inl e \<Rightarrow> ErrorfW ''failed to increment global bin usage'' e
                        | Inr U \<Rightarrow> Errorf ''global bin usage overflows'')), st3))"
    by (simp add: ServeOnDemandRequest_def q vq vp add gf)
  have l2: "OnDemandLedger st2 = OnDemandLedger st @ [(AccountID header, CumulativePayment header, sc)]"
    by (simp add: u(1) a(2))
  have o2: "Outage st2 = Outage st" by (simp add: u(2) a(2))
  have w2: "Writes st2 = Writes st @
          [AddOnDemandPaymentCall (AccountID header) (CumulativePayment header) sc,
           UpdateGlobalBinCall (GetReservationPeriod receivedAt
              (GetGlobalRatePeriodInterval (ChainPaymentState m))) sc]"
    by (simp add: u(4) a(2))
  show ?thesis
  proof (cases "Outage st2 (RemoveOnDemandPaymentCall (AccountID header) (CumulativePayment header))")
    case None
    let ?st3 = "st2\<lparr>Writes := Writes st2 @
                    [RemoveOnDemandPaymentCall (AccountID header) (CumulativePayment header)],
            OnDemandLedger := filter (\<lambda>(a', p', n). \<not> (a' = AccountID header
                \<and> p' = CumulativePayment header)) (OnDemandLedger st2)\<rparr>"
    have rm: "RemoveOnDemandPayment st2 (AccountID header) (CumulativePayment header) = (Inr (), ?st3)"
      by (simp add: RemoveOnDemandPayment_cases None)
    have "filter (\<lambda>(a', p', n). \<not> (a' = AccountID header
                \<and> p' = CumulativePayment header)) (OnDemandLedger st2) = OnDemandLedger st"
      unfolding l2 using a(1) by (rule remove_added)
    then have l3: "OnDemandLedger ?st3 = OnDemandLedger st"
      by simp
    have "Outage ?st3 = Outage st" by (simp add: o2)
    with l3 have "ValidatePayment m ?st3 header odp sc = ValidatePayment m st header odp sc"
      by (rule ValidatePayment_cong)
    with vp have v3: "ValidatePayment m ?st3 header odp sc = Ok ()" by simp
    show ?thesis
      unfolding serve rm using l3 v3 by (simp add: w2)
  next
    case (Some dbErr)
    then show ?thesis
      unfolding serve by (simp add: RemoveOnDemandPayment_cases w2)
  qed
qed

theorem ServeOnDemandRequest_compensates_witness:
  "ValidatePayment example_meterer example_store (example_header 3000) example_deposit 201 = Ok ()
   \<and> fst (ServeOnDemandRequest example_meterer example_store (example_header 3000)
             example_deposit 201 [0] 7)
       = Err (ErrorfW ''failed global rate limiting'' (Errorf ''global bin usage overflows''))
   \<and> OnDemandLedger (snd (ServeOnDemandRequest example_meterer example_store
         (example_header 3000) example_deposit 201 [0] 7)) = OnDemandLedger example_store
   \<and> ValidatePayment example_meterer (snd (ServeOnDemandRequest example_meterer example_store
         (example_header 3000) example_deposit 201 [0] 7)) (example_header 3000)
         example_deposit 201 = Ok ()"
proof -
  define st1 where "st1 = snd (AddOnDemandPayment example_store (example_header 3000) 201)"
  define st2 where "st2 = snd (UpdateGlobalBin st1 (GetReservationPeriod 7
      (GetGlobalRatePeriodInterval (ChainPaymentState example_meterer))) 201)"
  define st3 where "st3 = snd (RemoveOnDemandPayment st2 (AccountID (example_header 3000))
      (CumulativePayment (example_header 3000)))"
  have q: "GetOnDemandQuorumNumbers (ChainPaymentState example_meterer) = Inr [0, 1]"
    by (simp add: example_meterer_def example_chain_def)
  have vq: "ValidateQuorum [0] [0, 1] = Inr ()"
    by (simp add: ValidateQuorum_def)
  have vp: "ValidatePayment example_meterer example_store (example_header 3000)
              example_deposit 201 = Ok ()"
    by (simp add: ValidatePayment_def GetRelevantOnDemandRecords_def PaymentCharged_def
        SymbolsCharged_def RoundUpDivide_def example_meterer_def example_chain_def
        example_store_def example_header_def example_deposit_def)
  have add: "AddOnDemandPayment example_store (example_header 3000) 201 = (Inr (), st1)"
    by (simp add: st1_def AddOnDemandPayment_def ledger_has_def example_store_def
        example_header_def Let_def)
  have g: "UpdateGlobalBin st1 (GetReservationPeriod 7
      (GetGlobalRatePeriodInterval (ChainPaymentState example_meterer))) 201 = (Inr 201, st2)"
    by (simp add: st2_def st1_def UpdateGlobalBin_def AddOnDemandPayment_def ledger_has_def
        example_store_def example_header_def Let_def)
  have over: "case (Inr 201 :: error + uint64) of Inl e \<Rightarrow> True
     | Inr U \<Rightarrow> GetGlobalSymbolsPerSecond (ChainPaymentState example_meterer)
                * GetGlobalRatePeriodInterval (ChainPaymentState example_meterer) < U"
    by (simp add: example_meterer_def example_chain_def)
  have rm: "RemoveOnDemandPayment st2 (AccountID (example_header 3000))
      (CumulativePayment (example_header 3000)) = (Inr (), st3)"
    by (simp add: st3_def st2_def st1_def RemoveOnDemandPayment_def UpdateGlobalBin_def
        AddOnDemandPayment_def ledger_has_def example_store_def example_header_def Let_def)
  note t = ServeOnDemandRequest_compensates [OF q vq vp add g over, unfolded rm]
  from t have r: "ServeOnDemandRequest example_meterer example_store (example_header 3000)
             example_deposit 201 [0] 7
       = (Err (ErrorfW ''failed global rate limiting'' (Errorf ''global bin usage overflows'')), st3)"
    and l: "OnDemandLedger st3 = OnDemandLedger example_store"
    and v: "ValidatePayment example_meterer st3 (example_header 3000) example_deposit 201 = Ok ()"
    by simp_all
  from vp l v show ?thesis by (simp add: r)
qed

subsection \<open>What each path touches\<close>

lemma UpdateReservationBin_frame:
  "OnDemandLedger (snd (UpdateReservationBin st a p d)) = OnDemandLedger st"
  "GlobalBins (snd (UpdateReservationBin st a p d)) = GlobalBins st"
  "Outage (snd (UpdateReservationBin st a p d)) = Outage st"
  "Writes (snd (UpdateReservationBin st a p d)) = Writes st @ [UpdateReservationBinCall a p d]"
  by (simp_all add: UpdateReservationBin_def Let_def split: option.splits)

lemma IncrementBinUsage_frame:
  "OnDemandLedger (snd (IncrementBinUsage m st header reservation sc rp)) = OnDemandLedger st
   \<and> GlobalBins (snd (IncrementBinUsage m st header reservation sc rp)) = GlobalBins st
   \<and> (\<exists>ws. Writes (snd (IncrementBinUsage m st header reservation sc rp)) = Writes st @ ws
            \<and> list_all is_reservation_write ws)"
proof (cases "UpdateReservationBin st (AccountID header) rp sc")
  case (Pair res st1)
  note f1 = UpdateReservationBin_frame [of st "AccountID header" rp sc, unfolded Pair snd_conv]
  show ?thesis
  proof (cases res)
    case (Inl e)
    then show ?thesis using f1 by (simp add: IncrementBinUsage_def Pair)
  next
    case (Inr U)
    define L where "L = GetReservationBinLimit m reservation"
    obtain res2 st2 where c: "UpdateReservationBin st1 (AccountID header) (rp + 2) (U - L) = (res2, st2)"
      by (cases "UpdateReservationBin st1 (AccountID header) (rp + 2) (U - L)")
    note f2 = UpdateReservationBin_frame [of st1 "AccountID header" "rp + 2" "U - L",
        unfolded c snd_conv]
    show ?thesis
      using f1 f2 unfolding IncrementBinUsage_def Pair Inr Let_def L_def [symmetric]
      by (cases res2) (simp_all add: c)
  qed
qed

lemma IncrementBinUsage_Inr:
  assumes "IncrementBinUsage m st header reservation sc rp = (Inr u, st')"
  shows "ReservationBins st' (AccountID header, rp) = ReservationBins st (AccountID header, rp) + sc"
proof (cases "UpdateReservationBin st (AccountID header) rp sc")
  case (Pair res st1)
  show ?thesis
  proof (cases res)
    case (Inl e)
    with assms Pair show ?thesis by (simp add: IncrementBinUsage_def)
  next
    case (Inr U)
    note first = Pair [unfolded Inr]
    note out = UpdateReservationBin_Inr [OF first]
    have p: "ReservationBins st1 (AccountID header, rp) = ReservationBins st (AccountID header, rp) + sc"
      by (simp add: out(3) out(2))
    have two: "rp + 2 \<noteq> rp" by simp
    have keep: "ReservationBins (snd (UpdateReservationBin st1 (AccountID header) (rp + 2) d))
                (AccountID header, rp) = ReservationBins st1 (AccountID header, rp)" for d
      using two by (simp add: UpdateReservationBin_def Let_def split: option.splits)
    have "ReservationBins (snd (IncrementBinUsage m st header reservation sc rp))
           (AccountID header, rp) = ReservationBins st (AccountID header, rp) + sc"
      unfolding IncrementBinUsage_after_increment [OF first] Let_def
      using keep [of "U - GetReservationBinLimit m reservation"]
      by (auto simp: p split: prod.splits sum.splits)
    then show ?thesis by (simp add: assms)
  qed
qed

lemma ServeReservationRequest_frame:
  "OnDemandLedger (snd (ServeReservationRequest m st header reservation sc qs t)) = OnDemandLedger st
   \<and> GlobalBins (snd (ServeReservationRequest m st header reservation sc qs t)) = GlobalBins st
   \<and> (\<exists>ws. Writes (snd (ServeReservationRequest m st header reservation sc qs t)) = Writes st @ ws
            \<and> list_all is_reservation_write ws)"
  using IncrementBinUsage_frame [of m st header reservation sc
      "GetReservationPeriodByNanosecond m (Timestamp header) (GetReservationWindow (ChainPaymentState m))"]
  by (auto simp: ServeReservationRequest_def Let_def split: sum.splits prod.splits)

lemma ServeReservationRequest_Inr:
  assumes "ServeReservationRequest m st header reservation sc qs t = (Inr u, st')"
  shows "ReservationBins st' (AccountID header,
            GetReservationPeriodByNanosecond m (Timestamp header)
              (GetReservationWindow (ChainPaymentState m)))
         = ReservationBins st (AccountID header,
            GetReservationPeriodByNanosecond m (Timestamp header)
              (GetReservationWindow (ChainPaymentState m))) + sc"
  using assms
  by (auto simp: ServeReservationRequest_def Let_def split: sum.splits prod.splits if_splits
      dest: IncrementBinUsage_Inr)

lemma AddOnDemandPayment_frame:
  "ReservationBins (snd (AddOnDemandPayment st header sc)) = ReservationBins st"
  "GlobalBins (snd (AddOnDemandPayment st header sc)) = GlobalBins st"
  "Writes (snd (AddOnDemandPayment st header sc)) =
     Writes st @ [AddOnDemandPaymentCall (AccountID header) (CumulativePayment header) sc]"
  by (simp_all add: AddOnDemandPayment_def Let_def split: option.splits)

lemma RemoveOnDemandPayment_frame:
  "ReservationBins (snd (RemoveOnDemandPayment st a p)) = ReservationBins st"
  "Writes (snd (RemoveOnDemandPayment st a p)) = Writes st @ [RemoveOnDemandPaymentCall a p]"
  by (simp_all add: RemoveOnDemandPayment_def Let_def split: option.splits)

lemma IncrementGlobalBinUsage_frame:
  "ReservationBins (snd (IncrementGlobalBinUsage m st sc t)) = ReservationBins st"
  "OnDemandLedger (snd (IncrementGlobalBinUsage m st sc t)) = OnDemandLedger st"
  "Writes (snd (IncrementGlobalBinUsage m st sc t)) =
     Writes st @ [UpdateGlobalBinCall
        (GetReservationPeriod t (GetGlobalRatePeriodInterval (ChainPaymentState m))) sc]"
  by (simp_all add: IncrementGlobalBinUsage_def UpdateGlobalBin_def Let_def
      split: option.splits)

lemma IncrementGlobalBinUsage_Inr:
  assumes "IncrementGlobalBinUsage m st sc t = (Inr u, st')"
  shows "GlobalBins st' (GetReservationPeriod t (GetGlobalRatePeriodInterval (ChainPaymentState m)))
         = GlobalBins st (GetReservationPeriod t (GetGlobalRatePeriodInterval (ChainPaymentState m))) + sc"
  using assms
  by (auto simp: IncrementGlobalBinUsage_def UpdateGlobalBin_def Let_def
      split: option.splits if_splits)

lemma ServeOnDemandRequest_frame:
  "ReservationBins (snd (ServeOnDemandRequest m st header odp sc hq t)) = ReservationBins st
   \<and> (\<exists>ws. Writes (snd (ServeOnDemandRequest m st header odp sc hq t)) = Writes st @ ws
            \<and> list_all (\<lambda>c. \<not> is_reservation_write c) ws)"
proof (cases "\<exists>qn. GetOnDemandQuorumNumbers (ChainPaymentState m) = Inr qn
          \<and> ValidateQuorum hq qn = Inr () \<and> ValidatePayment m st header odp sc = Ok ()")
  case False
  then have "snd (ServeOnDemandRequest m st header odp sc hq t) = st"
    by (auto simp: ServeOnDemandRequest_def split: sum.splits option.splits result.splits)
  then show ?thesis by simp
next
  case True
  then obtain qn where q: "GetOnDemandQuorumNumbers (ChainPaymentState m) = Inr qn"
    "ValidateQuorum hq qn = Inr ()" "ValidatePayment m st header odp sc = Ok ()" by blast
  obtain ra st1 where a: "AddOnDemandPayment st header sc = (ra, st1)"
    by (cases "AddOnDemandPayment st header sc")
  note fa = AddOnDemandPayment_frame [of st header sc, unfolded a snd_conv]
  obtain rg st2 where g: "IncrementGlobalBinUsage m st1 sc t = (rg, st2)"
    by (cases "IncrementGlobalBinUsage m st1 sc t")
  note fg = IncrementGlobalBinUsage_frame [of m st1 sc t, unfolded g snd_conv]
  obtain rr st3 where r: "RemoveOnDemandPayment st2 (AccountID header) (CumulativePayment header)
      = (rr, st3)"
    by (cases "RemoveOnDemandPayment st2 (AccountID header) (CumulativePayment header)")
  note fr = RemoveOnDemandPayment_frame [of st2 "AccountID header" "CumulativePayment header",
      unfolded r snd_conv]
  have "snd (ServeOnDemandRequest m st header odp sc hq t) = st1
      \<or> snd (ServeOnDemandRequest m st header odp sc hq t) = st2
      \<or> snd (ServeOnDemandRequest m st header odp sc hq t) = st3"
    by (simp add: ServeOnDemandRequest_def q a g r split: sum.splits option.splits result.splits)
  then show ?thesis
    using fa fg fr by (elim disjE) simp_all
qed

lemma ServeOnDemandRequest_Inr:
  assumes "ServeOnDemandRequest m st header odp sc hq t = (Ok u, st')"
  shows "OnDemandLedger st' = OnDemandLedger st @ [(AccountID header, CumulativePayment header, sc)]"
    and "GlobalBins st' (GetReservationPeriod t (GetGlobalRatePeriodInterval (ChainPaymentState m)))
         = GlobalBins st (GetReservationPeriod t (GetGlobalRatePeriodInterval (ChainPaymentState m))) + sc"
    and "ValidatePayment m st header odp sc = Ok ()"
proof -
  obtain ra st1 where a: "AddOnDemandPayment st header sc = (ra, st1)"
    by (cases "AddOnDemandPayment st header sc")
  obtain rg st2 where g: "IncrementGlobalBinUsage m st1 sc t = (rg, st2)"
    by (cases "IncrementGlobalBinUsage m st1 sc t")
  from assms have steps: "ValidatePayment m st header odp sc = Ok ()" "ra = Inr ()" "rg = Inr ()"
    "st' = st2"
    by (auto simp: ServeOnDemandRequest_def a g split: sum.splits prod.splits option.splits result.splits)
  note a' = AddOnDemandPayment_Inr [OF a [unfolded steps(2)]]
  note g' = IncrementGlobalBinUsage_Inr [OF g [unfolded steps(3)]]
  note fg = IncrementGlobalBinUsage_frame [of m st1 sc t, unfolded g snd_conv]
  show "OnDemandLedger st' = OnDemandLedger st @ [(AccountID header, CumulativePayment header, sc)]"
    by (simp add: steps(4) fg(2)) (simp add: a'(2))
  show "GlobalBins st' (GetReservationPeriod t (GetGlobalRatePeriodInterval (ChainPaymentState m)))
         = GlobalBins st (GetReservationPeriod t (GetGlobalRatePeriodInterval (ChainPaymentState m))) + sc"
    by (simp add: steps(4) g') (simp add: a'(2))
  show "ValidatePayment m st header odp sc = Ok ()" by (rule steps(1))
qed

lemma SymbolsCharged_nonzero:
  assumes "SymbolsCharged m n = Some sc" "GetMinNumSymbols (ChainPaymentState m) \<noteq> 0"
  shows "sc \<noteq> 0"
proof (cases "n \<le> GetMinNumSymbols (ChainPaymentState m)")
  case True
  with assms show ?thesis by (auto simp: SymbolsCharged_def)
next
  case False
  then have n: "n \<noteq> 0" by auto
  show ?thesis
  proof
    assume z: "sc = 0"
    from assms False have "sc = MaxUint64 \<or> \<not> sc < n"
      by (auto simp: SymbolsCharged_def RoundUpDivide_def Let_def split: if_splits)
    with z n show False by (auto simp: MaxUint64_def word_gt_0)
  qed
qed

lemma PaymentCharged_sign:
  assumes "PaymentCharged m n = Some c"
  shows "0 \<le> sint (GetPricePerSymbol (ChainPaymentState m)) \<Longrightarrow> 0 \<le> c"
    and "0 < sint (GetPricePerSymbol (ChainPaymentState m)) \<Longrightarrow>
         GetMinNumSymbols (ChainPaymentState m) \<noteq> 0 \<Longrightarrow> 0 < c"
proof -
  from assms obtain sc where sc: "SymbolsCharged m n = Some sc"
    and c: "c = uint sc * sint (GetPricePerSymbol (ChainPaymentState m))"
    by (auto simp: PaymentCharged_def Let_def split: sum.splits option.splits result.splits)
  show "0 \<le> sint (GetPricePerSymbol (ChainPaymentState m)) \<Longrightarrow> 0 \<le> c"
    by (simp add: c)
  assume p: "0 < sint (GetPricePerSymbol (ChainPaymentState m))"
    and mn: "GetMinNumSymbols (ChainPaymentState m) \<noteq> 0"
  from SymbolsCharged_nonzero [OF sc mn] have "0 < uint sc" by (simp add: word_greater_zero_iff uint_0_iff order_less_le)
  with p show "0 < c" by (simp add: c)
qed

lemma ValidatePayment_negative:
  assumes neg: "CumulativePayment header < 0"
    and price: "0 \<le> sint (GetPricePerSymbol (ChainPaymentState m))"
    and prev: "\<And>prevPmt nextPmt nn.
        GetRelevantOnDemandRecords st (AccountID header) (CumulativePayment header)
          = Inr (prevPmt, nextPmt, nn) \<Longrightarrow> 0 \<le> prevPmt"
  shows "ValidatePayment m st header odp sc \<noteq> Ok ()"
proof
  assume ok: "ValidatePayment m st header odp sc = Ok ()"
  then obtain prevPmt nextPmt nn c where
    r: "GetRelevantOnDemandRecords st (AccountID header) (CumulativePayment header)
          = Inr (prevPmt, nextPmt, nn)"
    and c: "PaymentCharged m sc = Some c"
    and le: "\<not> CumulativePayment header < prevPmt + c"
    by (auto simp: ValidatePayment_def split: if_splits sum.splits prod.splits option.splits result.splits)
  from prev [OF r] PaymentCharged_sign(1) [OF c price] neg le show False by simp
qed

subsection \<open>The entry point\<close>

lemma MeterRequest_reservation:
  assumes "CumulativePayment header = 0"
  shows "MeterRequest m st header n qs t =
     (case SymbolsCharged m n of
        None \<Rightarrow> (PanicDivideByZero, st)
      | Some symbolsCharged \<Rightarrow>
          (case GetReservedPaymentByAccount (ChainPaymentState m) (AccountID header) of
             Inl err \<Rightarrow> (Err (ErrorfW ''failed to get active reservation by account'' err), st)
           | Inr reservation \<Rightarrow>
               (case ServeReservationRequest m st header reservation symbolsCharged qs t of
                  (Inl err, st') \<Rightarrow> (Err (ErrorfW ''invalid reservation'' err), st')
                | (Inr _, st') \<Rightarrow> (Ok symbolsCharged, st'))))"
  using assms by (simp add: MeterRequest_def split: sum.splits option.splits result.splits)

lemma MeterRequest_on_demand:
  assumes "CumulativePayment header \<noteq> 0"
  shows "MeterRequest m st header n qs t =
     (case SymbolsCharged m n of
        None \<Rightarrow> (PanicDivideByZero, st)
      | Some symbolsCharged \<Rightarrow>
          (case GetOnDemandPaymentByAccount (ChainPaymentState m) (AccountID header) of
             Inl err \<Rightarrow> (Err (ErrorfW ''failed to get on-demand payment by account'' err), st)
           | Inr onDemandPayment \<Rightarrow>
               (case ServeOnDemandRequest m st header onDemandPayment symbolsCharged qs t of
                  (PanicDivideByZero, st') \<Rightarrow> (PanicDivideByZero, st')
                | (Err err, st') \<Rightarrow> (Err (ErrorfW ''invalid on-demand request'' err), st')
                | (Ok _, st') \<Rightarrow> (Ok symbolsCharged, st'))))"
  using assms by (simp add: MeterRequest_def sgn_eq_0_iff split: sum.splits option.splits result.splits)

lemma MeterRequest_reservation_frame:
  assumes "CumulativePayment header = 0"
  shows "OnDemandLedger (snd (MeterRequest m st header n qs t)) = OnDemandLedger st
     \<and> GlobalBins (snd (MeterRequest m st header n qs t)) = GlobalBins st
     \<and> (\<exists>ws. Writes (snd (MeterRequest m st header n qs t)) = Writes st @ ws
              \<and> list_all is_reservation_write ws)"
proof (cases "\<exists>sc r. SymbolsCharged m n = Some sc
      \<and> GetReservedPaymentByAccount (ChainPaymentState m) (AccountID header) = Inr r")
  case False
  then have "snd (MeterRequest m st header n qs t) = st"
    unfolding MeterRequest_reservation [OF assms] by (auto split: sum.splits option.splits result.splits)
  then show ?thesis by simp
next
  case True
  then obtain sc r where s: "SymbolsCharged m n = Some sc"
    "GetReservedPaymentByAccount (ChainPaymentState m) (AccountID header) = Inr r" by blast
  have "snd (MeterRequest m st header n qs t) = snd (ServeReservationRequest m st header r sc qs t)"
    unfolding MeterRequest_reservation [OF assms] by (simp add: s split: prod.splits sum.splits option.splits result.splits)
  then show ?thesis using ServeReservationRequest_frame [of m st header r sc qs t] by simp
qed

lemma MeterRequest_on_demand_frame:
  assumes "CumulativePayment header \<noteq> 0"
  shows "ReservationBins (snd (MeterRequest m st header n qs t)) = ReservationBins st
     \<and> (\<exists>ws. Writes (snd (MeterRequest m st header n qs t)) = Writes st @ ws
              \<and> list_all (\<lambda>c. \<not> is_reservation_write c) ws)"
proof (cases "\<exists>sc d. SymbolsCharged m n = Some sc
      \<and> GetOnDemandPaymentByAccount (ChainPaymentState m) (AccountID header) = Inr d")
  case False
  then have "snd (MeterRequest m st header n qs t) = st"
    unfolding MeterRequest_on_demand [OF assms] by (auto split: sum.splits option.splits result.splits)
  then show ?thesis by simp
next
  case True
  then obtain sc d where s: "SymbolsCharged m n = Some sc"
    "GetOnDemandPaymentByAccount (ChainPaymentState m) (AccountID header) = Inr d" by blast
  have "snd (MeterRequest m st header n qs t) = snd (ServeOnDemandRequest m st header d sc qs t)"
    unfolding MeterRequest_on_demand [OF assms] by (simp add: s split: prod.splits sum.splits option.splits result.splits)
  then show ?thesis using ServeOnDemandRequest_frame [of m st header d sc qs t] by simp
qed

lemma MeterRequest_Inr_reservation:
  assumes "CumulativePayment header = 0" "MeterRequest m st header n qs t = (Ok v, st')"
  shows "SymbolsCharged m n = Some v
    \<and> ReservationBins st' (AccountID header,
            GetReservationPeriodByNanosecond m (Timestamp header)
              (GetReservationWindow (ChainPaymentState m)))
         = ReservationBins st (AccountID header,
            GetReservationPeriodByNanosecond m (Timestamp header)
              (GetReservationWindow (ChainPaymentState m))) + v"
  using assms(2) unfolding MeterRequest_reservation [OF assms(1)]
  by (auto split: sum.splits prod.splits option.splits result.splits dest: ServeReservationRequest_Inr)

lemma MeterRequest_Inr_on_demand:
  assumes "CumulativePayment header \<noteq> 0" "MeterRequest m st header n qs t = (Ok v, st')"
  shows "SymbolsCharged m n = Some v
    \<and> OnDemandLedger st' = OnDemandLedger st @ [(AccountID header, CumulativePayment header, v)]
    \<and> GlobalBins st' (GetReservationPeriod t (GetGlobalRatePeriodInterval (ChainPaymentState m)))
         = GlobalBins st (GetReservationPeriod t (GetGlobalRatePeriodInterval (ChainPaymentState m))) + v
    \<and> (\<exists>d. GetOnDemandPaymentByAccount (ChainPaymentState m) (AccountID header) = Inr d
            \<and> ValidatePayment m st header d v = Ok ())"
  using assms(2) unfolding MeterRequest_on_demand [OF assms(1)]
  by (auto split: sum.splits prod.splits option.splits result.splits dest: ServeOnDemandRequest_Inr)

text \<open>
  C4. A non-negative cumulative payment is zero or strictly positive. When it is zero,
  \<open>MeterRequest\<close> looks up the reservation and runs \<open>ServeReservationRequest\<close>; it
  leaves the on-demand ledger and the global bins as they are and sends the store
  reservation-bin writes only. When it is strictly positive, \<open>MeterRequest\<close> looks up
  the on-demand payment and runs \<open>ServeOnDemandRequest\<close>; it leaves the reservation
  bins as they are and sends the store no reservation-bin write. On success the value
  returned is \<open>SymbolsCharged numSymbols\<close>, and that is the amount booked: added to the
  reservation bin of the request period, or recorded in the new ledger entry and added
  to the global bin.
\<close>

theorem MeterRequest_path:
  "(CumulativePayment header = 0 \<longrightarrow>
      MeterRequest m st header n qs t =
        (case SymbolsCharged m n of
           None \<Rightarrow> (PanicDivideByZero, st)
         | Some symbolsCharged \<Rightarrow>
             (case GetReservedPaymentByAccount (ChainPaymentState m) (AccountID header) of
                Inl err \<Rightarrow> (Err (ErrorfW ''failed to get active reservation by account'' err), st)
              | Inr reservation \<Rightarrow>
                  (case ServeReservationRequest m st header reservation symbolsCharged qs t of
                     (Inl err, st') \<Rightarrow> (Err (ErrorfW ''invalid reservation'' err), st')
                   | (Inr _, st') \<Rightarrow> (Ok symbolsCharged, st'))))
      \<and> OnDemandLedger (snd (MeterRequest m st header n qs t)) = OnDemandLedger st
      \<and> GlobalBins (snd (MeterRequest m st header n qs t)) = GlobalBins st
      \<and> (\<exists>ws. Writes (snd (MeterRequest m st header n qs t)) = Writes st @ ws
               \<and> list_all is_reservation_write ws))
   \<and> (0 < CumulativePayment header \<longrightarrow>
      MeterRequest m st header n qs t =
        (case SymbolsCharged m n of
           None \<Rightarrow> (PanicDivideByZero, st)
         | Some symbolsCharged \<Rightarrow>
             (case GetOnDemandPaymentByAccount (ChainPaymentState m) (AccountID header) of
                Inl err \<Rightarrow> (Err (ErrorfW ''failed to get on-demand payment by account'' err), st)
              | Inr onDemandPayment \<Rightarrow>
                  (case ServeOnDemandRequest m st header onDemandPayment symbolsCharged qs t of
                     (PanicDivideByZero, st') \<Rightarrow> (PanicDivideByZero, st')
                   | (Err err, st') \<Rightarrow> (Err (ErrorfW ''invalid on-demand request'' err), st')
                   | (Ok _, st') \<Rightarrow> (Ok symbolsCharged, st'))))
      \<and> ReservationBins (snd (MeterRequest m st header n qs t)) = ReservationBins st
      \<and> (\<exists>ws. Writes (snd (MeterRequest m st header n qs t)) = Writes st @ ws
               \<and> list_all (\<lambda>c. \<not> is_reservation_write c) ws))
   \<and> (\<forall>v st'. MeterRequest m st header n qs t = (Ok v, st') \<longrightarrow>
        SymbolsCharged m n = Some v
        \<and> (CumulativePayment header = 0 \<longrightarrow>
             ReservationBins st' (AccountID header,
                 GetReservationPeriodByNanosecond m (Timestamp header)
                   (GetReservationWindow (ChainPaymentState m)))
               = ReservationBins st (AccountID header,
                 GetReservationPeriodByNanosecond m (Timestamp header)
                   (GetReservationWindow (ChainPaymentState m))) + v)
        \<and> (0 < CumulativePayment header \<longrightarrow>
             OnDemandLedger st' =
               OnDemandLedger st @ [(AccountID header, CumulativePayment header, v)]
             \<and> GlobalBins st'
                 (GetReservationPeriod t (GetGlobalRatePeriodInterval (ChainPaymentState m)))
               = GlobalBins st
                   (GetReservationPeriod t (GetGlobalRatePeriodInterval (ChainPaymentState m)))
                 + v))"
proof (intro conjI impI allI)
  assume z: "CumulativePayment header = 0"
  show "MeterRequest m st header n qs t =
        (case SymbolsCharged m n of
           None \<Rightarrow> (PanicDivideByZero, st)
         | Some symbolsCharged \<Rightarrow>
             (case GetReservedPaymentByAccount (ChainPaymentState m) (AccountID header) of
                Inl err \<Rightarrow> (Err (ErrorfW ''failed to get active reservation by account'' err), st)
              | Inr reservation \<Rightarrow>
                  (case ServeReservationRequest m st header reservation symbolsCharged qs t of
                     (Inl err, st') \<Rightarrow> (Err (ErrorfW ''invalid reservation'' err), st')
                   | (Inr _, st') \<Rightarrow> (Ok symbolsCharged, st'))))"
    using z by (rule MeterRequest_reservation)
  from MeterRequest_reservation_frame [OF z, of m st n qs t]
  show "OnDemandLedger (snd (MeterRequest m st header n qs t)) = OnDemandLedger st"
    and "GlobalBins (snd (MeterRequest m st header n qs t)) = GlobalBins st"
    and "\<exists>ws. Writes (snd (MeterRequest m st header n qs t)) = Writes st @ ws
               \<and> list_all is_reservation_write ws"
    by blast+
next
  assume p: "0 < CumulativePayment header"
  then have nz: "CumulativePayment header \<noteq> 0" by simp
  show "MeterRequest m st header n qs t =
        (case SymbolsCharged m n of
           None \<Rightarrow> (PanicDivideByZero, st)
         | Some symbolsCharged \<Rightarrow>
             (case GetOnDemandPaymentByAccount (ChainPaymentState m) (AccountID header) of
                Inl err \<Rightarrow> (Err (ErrorfW ''failed to get on-demand payment by account'' err), st)
              | Inr onDemandPayment \<Rightarrow>
                  (case ServeOnDemandRequest m st header onDemandPayment symbolsCharged qs t of
                     (PanicDivideByZero, st') \<Rightarrow> (PanicDivideByZero, st')
                   | (Err err, st') \<Rightarrow> (Err (ErrorfW ''invalid on-demand request'' err), st')
                   | (Ok _, st') \<Rightarrow> (Ok symbolsCharged, st'))))"
    using nz by (rule MeterRequest_on_demand)
  from MeterRequest_on_demand_frame [OF nz, of m st n qs t]
  show "ReservationBins (snd (MeterRequest m st header n qs t)) = ReservationBins st"
    and "\<exists>ws. Writes (snd (MeterRequest m st header n qs t)) = Writes st @ ws
               \<and> list_all (\<lambda>c. \<not> is_reservation_write c) ws"
    by blast+
next
  fix v st' assume ok: "MeterRequest m st header n qs t = (Ok v, st')"
  show "SymbolsCharged m n = Some v"
    using ok MeterRequest_Inr_reservation [of header m st n qs t v st']
      MeterRequest_Inr_on_demand [of header m st n qs t v st']
    by (cases "CumulativePayment header = 0") blast+
  {
    assume z: "CumulativePayment header = 0"
    from MeterRequest_Inr_reservation [OF z ok]
    show "ReservationBins st' (AccountID header,
                 GetReservationPeriodByNanosecond m (Timestamp header)
                   (GetReservationWindow (ChainPaymentState m)))
               = ReservationBins st (AccountID header,
                 GetReservationPeriodByNanosecond m (Timestamp header)
                   (GetReservationWindow (ChainPaymentState m))) + v"
      by blast
  }
  {
    assume p: "0 < CumulativePayment header"
    then have nz: "CumulativePayment header \<noteq> 0" by simp
    from MeterRequest_Inr_on_demand [OF nz ok]
    show "OnDemandLedger st' =
               OnDemandLedger st @ [(AccountID header, CumulativePayment header, v)]"
      and "GlobalBins st'
                 (GetReservationPeriod t (GetGlobalRatePeriodInterval (ChainPaymentState m)))
               = GlobalBins st
                   (GetReservationPeriod t (GetGlobalRatePeriodInterval (ChainPaymentState m)))
                 + v"
      by blast+
  }
qed

lemmas example_defs =
  example_meterer_def example_chain_def example_reservation_def example_store_def
  example_header_def

lemmas meterer_defs =
  MeterRequest_def ServeReservationRequest_def ServeOnDemandRequest_def IncrementBinUsage_def
  IncrementGlobalBinUsage_def ValidatePayment_def ValidateReservationPeriod_def
  ValidateQuorum_def GetReservationBinLimit_def GetReservationPeriodByNanosecond_def
  GetReservationPeriod_def IsActiveByNanosecond_def PaymentCharged_def SymbolsCharged_def
  RoundUpDivide_def UpdateReservationBin_def UpdateGlobalBin_def AddOnDemandPayment_def
  RemoveOnDemandPayment_def GetRelevantOnDemandRecords_def ledger_has_def

theorem MeterRequest_path_witness:
  "CumulativePayment (example_header 0) = 0
   \<and> fst (MeterRequest example_meterer example_store (example_header 0) 7 [0] 30) = Ok 9
   \<and> SymbolsCharged example_meterer 7 = Some 9
   \<and> ReservationBins (snd (MeterRequest example_meterer example_store (example_header 0) 7 [0] 30))
        (''0xA'', 0) = 9
   \<and> OnDemandLedger (snd (MeterRequest example_meterer example_store (example_header 0) 7 [0] 30))
        = OnDemandLedger example_store
   \<and> 0 < CumulativePayment (example_header 60)
   \<and> fst (MeterRequest example_meterer example_store (example_header 60) 5 [0] 30) = Ok 6
   \<and> OnDemandLedger (snd (MeterRequest example_meterer example_store (example_header 60) 5 [0] 30))
        = [(''0xA'', 500, 6), (''0xA'', 60, 6)]
   \<and> ReservationBins (snd (MeterRequest example_meterer example_store (example_header 60) 5 [0] 30))
        = ReservationBins example_store"
proof -
  define s1 where "s1 = snd (MeterRequest example_meterer example_store (example_header 0) 7 [0] 30)"
  define s2 where "s2 = snd (MeterRequest example_meterer example_store (example_header 60) 5 [0] 30)"
  have z: "CumulativePayment (example_header 0) = 0" by (simp add: example_header_def)
  have p: "0 < CumulativePayment (example_header 60)" by (simp add: example_header_def)
  have "fst (MeterRequest example_meterer example_store (example_header 0) 7 [0] 30) = Ok 9"
    by (simp add: meterer_defs example_defs Let_def)
  then have r1: "MeterRequest example_meterer example_store (example_header 0) 7 [0] 30 = (Ok 9, s1)"
    by (simp add: s1_def prod_eq_iff)
  have "fst (MeterRequest example_meterer example_store (example_header 60) 5 [0] 30) = Ok 6"
    by (simp add: meterer_defs example_defs Let_def)
  then have r2: "MeterRequest example_meterer example_store (example_header 60) 5 [0] 30 = (Ok 6, s2)"
    by (simp add: s2_def prod_eq_iff)
  note t1 = MeterRequest_path [of "example_header 0" example_meterer example_store 7 "[0]" 30]
  note t2 = MeterRequest_path [of "example_header 60" example_meterer example_store 5 "[0]" 30]
  have per: "GetReservationPeriodByNanosecond example_meterer (Timestamp (example_header 0))
               (GetReservationWindow (ChainPaymentState example_meterer)) = 0"
    by (simp add: GetReservationPeriodByNanosecond_def GetReservationPeriod_def example_defs)
  have a: "AccountID (example_header 0) = ''0xA''" "AccountID (example_header 60) = ''0xA''"
    "CumulativePayment (example_header 60) = 60"
    by (simp_all add: example_header_def)
  have b0: "ReservationBins example_store (''0xA'', 0) = 0"
    "OnDemandLedger example_store = [(''0xA'', 500, 6)]"
    by (simp_all add: example_store_def)
  from t1 z r1 have c1: "SymbolsCharged example_meterer 7 = Some 9"
    and c2: "ReservationBins s1 (AccountID (example_header 0),
                 GetReservationPeriodByNanosecond example_meterer (Timestamp (example_header 0))
                   (GetReservationWindow (ChainPaymentState example_meterer)))
               = ReservationBins example_store (AccountID (example_header 0),
                 GetReservationPeriodByNanosecond example_meterer (Timestamp (example_header 0))
                   (GetReservationWindow (ChainPaymentState example_meterer))) + 9"
    by blast+
  from t1 z have c3: "OnDemandLedger s1 = OnDemandLedger example_store"
    unfolding s1_def by blast
  from t2 p r2 have d1: "OnDemandLedger s2 = OnDemandLedger example_store @
      [(AccountID (example_header 60), CumulativePayment (example_header 60), 6)]"
    by blast
  from t2 p have d2: "ReservationBins s2 = ReservationBins example_store"
    unfolding s2_def by blast
  from z p c1 c3 d2 c2 d1 show ?thesis
    by (simp add: r1 r2 per a b0 s1_def [symmetric] s2_def [symmetric])
qed

text \<open>
  C10. A strictly negative cumulative payment does not select the reservation path:
  \<open>MeterRequest\<close> runs the on-demand path, the reservation bins stay as they are and
  the store gets no reservation-bin write. In the on-demand checks, with a positive
  price per symbol the payment charged is non-negative (positive when \<open>minNumSymbols\<close>
  is not zero), so with a non-negative predecessor a negative payment within the
  deposit fails the predecessor check; and whenever the store's predecessors are
  non-negative the request is never accepted.
\<close>

theorem MeterRequest_negative_payment:
  assumes neg: "CumulativePayment header < 0"
  shows "MeterRequest m st header n qs t =
        (case SymbolsCharged m n of
           None \<Rightarrow> (PanicDivideByZero, st)
         | Some symbolsCharged \<Rightarrow>
             (case GetOnDemandPaymentByAccount (ChainPaymentState m) (AccountID header) of
                Inl err \<Rightarrow> (Err (ErrorfW ''failed to get on-demand payment by account'' err), st)
              | Inr onDemandPayment \<Rightarrow>
                  (case ServeOnDemandRequest m st header onDemandPayment symbolsCharged qs t of
                     (PanicDivideByZero, st') \<Rightarrow> (PanicDivideByZero, st')
                   | (Err err, st') \<Rightarrow> (Err (ErrorfW ''invalid on-demand request'' err), st')
                   | (Ok _, st') \<Rightarrow> (Ok symbolsCharged, st'))))
    \<and> ReservationBins (snd (MeterRequest m st header n qs t)) = ReservationBins st
    \<and> (\<exists>ws. Writes (snd (MeterRequest m st header n qs t)) = Writes st @ ws
             \<and> list_all (\<lambda>c. \<not> is_reservation_write c) ws)
    \<and> (\<forall>(odp :: OnDemandPayment) sc prevPmt nextPmt nn c.
          CumulativePayment header \<le> DepositCumulativePayment odp
          \<and> GetRelevantOnDemandRecords st (AccountID header) (CumulativePayment header)
              = Inr (prevPmt, nextPmt, nn)
          \<and> 0 \<le> prevPmt
          \<and> PaymentCharged m sc = Some c
          \<and> 0 < sint (GetPricePerSymbol (ChainPaymentState m))
          \<longrightarrow> 0 \<le> c
            \<and> (GetMinNumSymbols (ChainPaymentState m) \<noteq> 0 \<longrightarrow> 0 < c)
            \<and> ValidatePayment m st header odp sc
                = Err (Errorf ''insufficient cumulative payment increment''))
    \<and> (0 < sint (GetPricePerSymbol (ChainPaymentState m))
        \<and> (\<forall>prevPmt nextPmt nn.
              GetRelevantOnDemandRecords st (AccountID header) (CumulativePayment header)
                = Inr (prevPmt, nextPmt, nn) \<longrightarrow> 0 \<le> prevPmt)
        \<longrightarrow> (\<forall>v st'. MeterRequest m st header n qs t \<noteq> (Ok v, st')))"
proof (intro conjI allI impI)
  from neg have nz: "CumulativePayment header \<noteq> 0" by simp
  show "MeterRequest m st header n qs t =
        (case SymbolsCharged m n of
           None \<Rightarrow> (PanicDivideByZero, st)
         | Some symbolsCharged \<Rightarrow>
             (case GetOnDemandPaymentByAccount (ChainPaymentState m) (AccountID header) of
                Inl err \<Rightarrow> (Err (ErrorfW ''failed to get on-demand payment by account'' err), st)
              | Inr onDemandPayment \<Rightarrow>
                  (case ServeOnDemandRequest m st header onDemandPayment symbolsCharged qs t of
                     (PanicDivideByZero, st') \<Rightarrow> (PanicDivideByZero, st')
                   | (Err err, st') \<Rightarrow> (Err (ErrorfW ''invalid on-demand request'' err), st')
                   | (Ok _, st') \<Rightarrow> (Ok symbolsCharged, st'))))"
    using nz by (rule MeterRequest_on_demand)
  from MeterRequest_on_demand_frame [OF nz, of m st n qs t]
  show "ReservationBins (snd (MeterRequest m st header n qs t)) = ReservationBins st"
    and "\<exists>ws. Writes (snd (MeterRequest m st header n qs t)) = Writes st @ ws
               \<and> list_all (\<lambda>c. \<not> is_reservation_write c) ws"
    by blast+
next
  fix odp :: OnDemandPayment and sc prevPmt nextPmt nn c
  assume h: "CumulativePayment header \<le> DepositCumulativePayment odp
          \<and> GetRelevantOnDemandRecords st (AccountID header) (CumulativePayment header)
              = Inr (prevPmt, nextPmt, nn)
          \<and> 0 \<le> prevPmt
          \<and> PaymentCharged m sc = Some c
          \<and> 0 < sint (GetPricePerSymbol (ChainPaymentState m))"
  then have c: "PaymentCharged m sc = Some c"
    and price: "0 < sint (GetPricePerSymbol (ChainPaymentState m))" by blast+
  from PaymentCharged_sign(1) [OF c] price show c0: "0 \<le> c" by simp
  from PaymentCharged_sign(2) [OF c price]
  show "0 < c" if "GetMinNumSymbols (ChainPaymentState m) \<noteq> 0" using that .
  from h neg c0 have "CumulativePayment header < prevPmt + c" by linarith
  with h show "ValidatePayment m st header odp sc
                = Err (Errorf ''insufficient cumulative payment increment'')"
    by (simp add: ValidatePayment_def)
next
  fix v st'
  assume h: "0 < sint (GetPricePerSymbol (ChainPaymentState m))
        \<and> (\<forall>prevPmt nextPmt nn.
              GetRelevantOnDemandRecords st (AccountID header) (CumulativePayment header)
                = Inr (prevPmt, nextPmt, nn) \<longrightarrow> 0 \<le> prevPmt)"
  from neg have nz: "CumulativePayment header \<noteq> 0" by simp
  show "MeterRequest m st header n qs t \<noteq> (Ok v, st')"
  proof
    assume ok: "MeterRequest m st header n qs t = (Ok v, st')"
    from MeterRequest_Inr_on_demand [OF nz ok]
    obtain d where "ValidatePayment m st header d v = Ok ()" by blast
    moreover have "ValidatePayment m st header d v \<noteq> Ok ()"
      using neg h by (intro ValidatePayment_negative) auto
    ultimately show False by simp
  qed
qed

theorem MeterRequest_negative_payment_witness:
  "CumulativePayment (example_header (- 5)) < 0
   \<and> MeterRequest example_meterer example_store (example_header (- 5)) 5 [0] 30
       = (Err (ErrorfW ''invalid on-demand request'' (ErrorfW ''invalid on-demand payment''
            (Errorf ''insufficient cumulative payment increment''))), example_store)
   \<and> ValidatePayment example_meterer example_store (example_header (- 5)) example_deposit 6
       = Err (Errorf ''insufficient cumulative payment increment'')"
proof -
  have neg: "CumulativePayment (example_header (- 5)) < 0" by (simp add: example_header_def)
  note t = MeterRequest_negative_payment [OF neg, of example_meterer example_store 5 "[0]" 30]
  have sc: "SymbolsCharged example_meterer 5 = Some 6"
    by (simp add: SymbolsCharged_def RoundUpDivide_def example_defs)
  have d: "GetOnDemandPaymentByAccount (ChainPaymentState example_meterer)
             (AccountID (example_header (- 5))) = Inr example_deposit"
    by (simp add: example_defs example_deposit_def)
  have h: "CumulativePayment (example_header (- 5)) \<le> DepositCumulativePayment example_deposit
          \<and> GetRelevantOnDemandRecords example_store (AccountID (example_header (- 5)))
               (CumulativePayment (example_header (- 5))) = Inr (0, 500, 6)
          \<and> (0 :: int) \<le> 0
          \<and> PaymentCharged example_meterer 6 = Some 60
          \<and> 0 < sint (GetPricePerSymbol (ChainPaymentState example_meterer))"
    by (simp add: GetRelevantOnDemandRecords_def PaymentCharged_def SymbolsCharged_def
        RoundUpDivide_def example_defs example_deposit_def)
  from t h have v: "ValidatePayment example_meterer example_store (example_header (- 5))
       example_deposit 6 = Err (Errorf ''insufficient cumulative payment increment'')"
    by blast
  have q: "GetOnDemandQuorumNumbers (ChainPaymentState example_meterer) = Inr [0, 1]"
    "ValidateQuorum [0] [0, 1] = Inr ()"
    by (simp_all add: ValidateQuorum_def example_defs)
  have s: "ServeOnDemandRequest example_meterer example_store (example_header (- 5))
             example_deposit 6 [0] 30
       = (Err (ErrorfW ''invalid on-demand payment''
            (Errorf ''insufficient cumulative payment increment'')), example_store)"
    by (simp add: ServeOnDemandRequest_def q v)
  from t have "MeterRequest example_meterer example_store (example_header (- 5)) 5 [0] 30 =
        (case SymbolsCharged example_meterer 5 of
           None \<Rightarrow> (PanicDivideByZero, example_store)
         | Some symbolsCharged \<Rightarrow>
             (case GetOnDemandPaymentByAccount (ChainPaymentState example_meterer)
                     (AccountID (example_header (- 5))) of
                Inl err \<Rightarrow>
                  (Err (ErrorfW ''failed to get on-demand payment by account'' err), example_store)
              | Inr onDemandPayment \<Rightarrow>
                  (case ServeOnDemandRequest example_meterer example_store (example_header (- 5))
                          onDemandPayment symbolsCharged [0] 30 of
                     (PanicDivideByZero, st') \<Rightarrow> (PanicDivideByZero, st')
                   | (Err err, st') \<Rightarrow> (Err (ErrorfW ''invalid on-demand request'' err), st')
                   | (Ok _, st') \<Rightarrow> (Ok symbolsCharged, st'))))"
    by blast
  then have r: "MeterRequest example_meterer example_store (example_header (- 5)) 5 [0] 30
       = (Err (ErrorfW ''invalid on-demand request'' (ErrorfW ''invalid on-demand payment''
            (Errorf ''insufficient cumulative payment increment''))), example_store)"
    by (simp add: sc d s)
  from neg r v show ?thesis by blast
qed

subsection \<open>The nanosecond conversion\<close>

lemma bit_length_bounds:
  "n \<noteq> 0 \<Longrightarrow> 2 ^ bit_length n \<le> 2 * n \<and> n < 2 ^ bit_length n"
proof (induction n rule: bit_length.induct)
  case (1 n)
  show ?case
  proof (cases "n div 2 = 0")
    case True
    with "1.prems" have "n = 1" by (simp add: div_eq_0_iff) 
    then show ?thesis by (simp add: bit_length.simps)
  next
    case False
    with "1.IH" "1.prems"
    have ih: "2 ^ bit_length (n div 2) \<le> 2 * (n div 2)" "n div 2 < 2 ^ bit_length (n div 2)"
      by simp_all
    have b: "bit_length n = Suc (bit_length (n div 2))"
      using "1.prems" by (subst bit_length.simps) simp
    from ih show ?thesis unfolding b by (simp; linarith)
  qed
qed

lemma bit_length_eqI:
  assumes "2 ^ k \<le> 2 * n" "n < 2 ^ k"
  shows "bit_length n = k"
proof -
  from assms(1) have nz: "n \<noteq> 0" by (cases n) simp_all
  note b = bit_length_bounds [OF nz]
  have "(2::nat) ^ bit_length n < 2 ^ Suc k" using b assms(2) by simp
  then have 1: "bit_length n \<le> k" by (simp only: power_strict_increasing_iff less_Suc_eq_le)
  have "(2::nat) ^ k < 2 ^ Suc (bit_length n)" using b assms(1) by simp
  then have 2: "k \<le> bit_length n" by (simp only: power_strict_increasing_iff less_Suc_eq_le)
  from 1 2 show ?thesis by simp
qed

lemma float64_quot_example:
  "float64_round 999999999 1000000000 = (9007199245733793, - 53)"
proof -
  have b1: "bit_length 999999999 = 30" by (rule bit_length_eqI) simp_all
  have b2: "bit_length 1000000000 = 30" by (rule bit_length_eqI) simp_all
  have e: "floor_log2 999999999 1000000000 = - 1"
    by (simp add: floor_log2_def b1 b2)
  show ?thesis
    by (simp add: float64_round_def e round_half_even_def Let_def)
qed

lemma Seconds_example: "Seconds 1700000000999999999 = (7130316804194304, - 22)"
proof -
  have b1: "bit_length 15312238742066885645733793 = 84" by (rule bit_length_eqI) simp_all
  have b2: "bit_length 9007199254740992 = 54" by (rule bit_length_eqI) simp_all
  have e: "floor_log2 15312238742066885645733793 9007199254740992 = 30"
    by (simp add: floor_log2_def b1 b2)
  have r: "float64_round 15312238742066885645733793 9007199254740992 = (7130316804194304, - 22)"
    by (simp add: float64_round_def e round_half_even_def Let_def)
  show ?thesis
    by (simp add: Seconds_def float64_quot_example r)
qed

lemma DurationSecondsFloat64_example:
  "DurationSecondsFloat64 1700000000999999999 = 1700000001"
  by (simp add: DurationSecondsFloat64_def Seconds_example float64_trunc_def)

text \<open>
  C8. \<open>GetReservationPeriodByNanosecond\<close> returns 0 for every negative timestamp, as the
  claim says. For a non-negative timestamp the claim does not hold of the code: the
  seconds come from \<open>Seconds()\<close>, and the \<open>float64\<close> sum of the whole seconds and the
  fraction rounds up to the next whole second when the fraction is close to 1. At
  \<open>ns = 1700000000999999999\<close> and window 1 the integer quotient \<open>ns / 10^9\<close> is
  \<open>1700000000\<close>, which is also the period of the integer Unix second of that instant,
  but the code returns \<open>1700000001\<close>.
\<close>

theorem GetReservationPeriodByNanosecond_rounds_up:
  "(sint ns < 0 \<longrightarrow> GetReservationPeriodByNanosecond m ns w = 0)
   \<and> sint (1700000000999999999 :: int64) div 1000000000 = 1700000000
   \<and> GetReservationPeriod 1700000000 1 = 1700000000
   \<and> GetReservationPeriodByNanosecond (m\<lparr>DurationSeconds := DurationSecondsFloat64\<rparr>)
         1700000000999999999 1 = 1700000001"
  by (simp add: GetReservationPeriodByNanosecond_def GetReservationPeriod_def
      DurationSecondsFloat64_example)

theorem GetReservationPeriodByNanosecond_rounds_up_witness:
  "sint (- 5 :: int64) < 0 \<and> GetReservationPeriodByNanosecond example_meterer (- 5) 60 = 0"
proof -
  have h: "sint (- 5 :: int64) < 0" by simp
  from GetReservationPeriodByNanosecond_rounds_up [of "- 5" example_meterer 60] h
  show ?thesis by blast
qed

end
